theory Spec2Isabelle
  imports Main "HOL-Library.AList"
begin

section \<open>JSON values and the JavaScript primitives the server uses\<close>

text \<open>
  The server keeps one JSON document \<^verbatim>\<open>{people: [...], items: [...]}\<close> in \<^verbatim>\<open>data.json\<close>
  and every handler reads it with \<^verbatim>\<open>loadData\<close>, changes the parsed value in memory and
  writes it back with \<^verbatim>\<open>saveData\<close>.  People and items are JSON objects whose fields may
  be absent or of any JSON type (that is what \<^verbatim>\<open>loadData\<close> repairs), so they are modelled
  as association lists from field names to JSON values, in insertion order.

  Numbers are the integers among the doubles: a JSON number with a fractional part is
  outside this model, and where the code computes a number (\<^verbatim>\<open>maxId + 1\<close>, \<^verbatim>\<open>Number(s)\<close>)
  the model rounds to the nearest double as the code does.  Strings are lists of
  characters with the codes \<open>0\<close> to \<open>255\<close>, read as Latin-1.  A JavaScript value that may be \<^verbatim>\<open>undefined\<close> is a \<open>json option\<close>,
  with \<open>None\<close> for \<^verbatim>\<open>undefined\<close>.
\<close>

datatype json =
    JNull
  | JBool bool
  | JNum int
  | JStr string
  | JArr "json list"
  | JObj "(string \<times> json) list"

type_synonym obj = "(string \<times> json) list"
type_synonym jsval = "json option"

text \<open>Property read \<^verbatim>\<open>o.k\<close> and the test \<^verbatim>\<open>'k' in o\<close>.\<close>

definition get :: "obj \<Rightarrow> string \<Rightarrow> jsval" where
  "get ob k = map_of ob k"

definition has :: "obj \<Rightarrow> string \<Rightarrow> bool" where
  "has ob k = (map_of ob k \<noteq> None)"

text \<open>Property write \<^verbatim>\<open>o.k = v\<close>: an existing key keeps its place, a new key goes last.\<close>

definition put :: "string \<Rightarrow> json \<Rightarrow> obj \<Rightarrow> obj" where
  "put k v ob = AList.update k v ob"

text \<open>
  Property write of a value that may be \<^verbatim>\<open>undefined\<close>.  The object is only observed
  after \<^verbatim>\<open>JSON.stringify\<close>, which leaves out a property whose value is \<^verbatim>\<open>undefined\<close>.
\<close>

definition put_val :: "string \<Rightarrow> jsval \<Rightarrow> obj \<Rightarrow> obj" where
  "put_val k v ob = (case v of None \<Rightarrow> AList.delete k ob | Some j \<Rightarrow> put k j ob)"

text \<open>Truthiness (\<^verbatim>\<open>!!v\<close>) and the operator \<^verbatim>\<open>a || b\<close>.\<close>

fun truthy :: "jsval \<Rightarrow> bool" where
  "truthy None = False"
| "truthy (Some JNull) = False"
| "truthy (Some (JBool b)) = b"
| "truthy (Some (JNum n)) = (n \<noteq> 0)"
| "truthy (Some (JStr s)) = (s \<noteq> [])"
| "truthy (Some (JArr xs)) = True"
| "truthy (Some (JObj kvs)) = True"

definition js_or :: "jsval \<Rightarrow> jsval \<Rightarrow> jsval" where
  "js_or a b = (if truthy a then a else b)"

text \<open>
  Strict equality \<^verbatim>\<open>a === b\<close> of two values that come from different parses (the data
  file and the request): primitives compare by value, arrays and objects are distinct
  references.
\<close>

fun strict_eq :: "jsval \<Rightarrow> jsval \<Rightarrow> bool" where
  "strict_eq None None = True"
| "strict_eq (Some JNull) (Some JNull) = True"
| "strict_eq (Some (JBool a)) (Some (JBool b)) = (a = b)"
| "strict_eq (Some (JNum a)) (Some (JNum b)) = (a = b)"
| "strict_eq (Some (JStr a)) (Some (JStr b)) = (a = b)"
| "strict_eq _ _ = False"

text \<open>\<^verbatim>\<open>String(n)\<close> for an integer.\<close>

fun string_of_nat :: "nat \<Rightarrow> string" where
  "string_of_nat n =
     (if n < 10 then [''0123456789'' ! n]
      else string_of_nat (n div 10) @ [''0123456789'' ! (n mod 10)])"

declare string_of_nat.simps [simp del]

definition string_of_int :: "int \<Rightarrow> string" where
  "string_of_int i = (if i < 0 then CHR ''-'' # string_of_nat (nat (- i)) else string_of_nat (nat i))"

text \<open>\<^verbatim>\<open>Array.prototype.join\<close> on the strings of the elements.\<close>

fun join :: "string \<Rightarrow> string list \<Rightarrow> string" where
  "join sep [] = []"
| "join sep [x] = x"
| "join sep (x # y # ys) = x @ sep @ join sep (y # ys)"

text \<open>
  \<^verbatim>\<open>String(v)\<close>.  An array is its elements joined by commas, where \<^verbatim>\<open>null\<close> elements
  give the empty string; an object is \<^verbatim>\<open>[object Object]\<close>.
\<close>

fun js_String :: "json \<Rightarrow> string" where
  "js_String JNull = ''null''"
| "js_String (JBool b) = (if b then ''true'' else ''false'')"
| "js_String (JNum n) = string_of_int n"
| "js_String (JStr s) = s"
| "js_String (JArr xs) = join '','' (map (\<lambda>x. if x = JNull then [] else js_String x) xs)"
| "js_String (JObj kvs) = ''[object Object]''"

definition String :: "jsval \<Rightarrow> string" where
  "String v = (case v of None \<Rightarrow> ''undefined'' | Some j \<Rightarrow> js_String j)"

text \<open>\<^verbatim>\<open>arr.join(sep)\<close> on an array of JSON values.\<close>

definition js_join :: "string \<Rightarrow> json list \<Rightarrow> string" where
  "js_join sep xs = join sep (map (\<lambda>x. if x = JNull then [] else js_String x) xs)"

text \<open>
  \<^verbatim>\<open>s.trim()\<close>: white space is tab, line feed, vertical tab, form feed, carriage return,
  space and the no-break space.
\<close>

definition is_space :: "char \<Rightarrow> bool" where
  "is_space c = (c \<in> set [CHR 0x09, CHR 0x0A, CHR 0x0B, CHR 0x0C, CHR 0x0D, CHR 0x20, CHR 0xA0])"

definition trim :: "string \<Rightarrow> string" where
  "trim s = rev (dropWhile is_space (rev (dropWhile is_space s)))"

text \<open>
  \<^verbatim>\<open>s.toLowerCase()\<close>.  Among the characters of this model the letters with a lower case
  are \<^verbatim>\<open>A\<close> to \<^verbatim>\<open>Z\<close> and the Latin-1 capitals \<open>0xC0\<close> to \<open>0xDE\<close> without the
  multiplication sign \<open>0xD7\<close>; the lower case is \<open>0x20\<close> above.
\<close>

definition lower_char :: "char \<Rightarrow> char" where
  "lower_char c =
     (let n = (of_char c :: nat)
      in if (65 \<le> n \<and> n \<le> 90) \<or> (192 \<le> n \<and> n \<le> 222 \<and> n \<noteq> 215) then char_of (n + 32)
         else c)"

definition toLowerCase :: "string \<Rightarrow> string" where
  "toLowerCase s = map lower_char s"

text \<open>
  Numbers are IEEE doubles in the code.  The model keeps the integers among them, and
  rounds where the code does: \<open>dbl n\<close> is the double nearest to the integer \<open>n\<close>, ties
  to the even significand.  Up to \<open>2^53\<close> in magnitude every integer is a double.
\<close>

function bits :: "int \<Rightarrow> nat" where
  "bits n = (if n \<le> 0 then 0 else Suc (bits (n div 2)))"
  by pat_completeness auto
termination
  by (relation "measure nat") auto

declare bits.simps [simp del]

text \<open>The integer nearest to \<open>a / b\<close> for \<open>0 \<le> a\<close> and \<open>0 < b\<close>, ties to even.\<close>

definition round_even :: "int \<Rightarrow> int \<Rightarrow> int" where
  "round_even a b =
     (let q = a div b; r = a mod b
      in if 2 * r < b then q else if 2 * r > b then q + 1 else if even q then q else q + 1)"

definition dbl :: "int \<Rightarrow> int" where
  "dbl n =
     (if \<bar>n\<bar> \<le> 2 ^ 53 then n
      else (let s = bits \<bar>n\<bar> - 53
            in sgn n * (round_even \<bar>n\<bar> (2 ^ s) * 2 ^ s)))"

text \<open>
  The double nearest to the positive rational \<open>p / q\<close>, when that double is an integer:
  \<open>None\<close> when it is not an integer or is infinite.  The exponent \<open>e\<close> is the binary
  logarithm of \<open>p / q\<close> rounded down, at least \<open>-1022\<close> (below that the doubles are
  subnormal), and the significand has 53 bits.
\<close>

definition double_int :: "int \<Rightarrow> int \<Rightarrow> int option" where
  "double_int p q =
     (let d = int (bits p) - int (bits q);
          e = (if (if 0 \<le> d then 2 ^ nat d * q \<le> p else q \<le> p * 2 ^ nat (- d)) then d else d - 1);
          s = max e (- 1022) - 52;
          N = (if 0 \<le> s then round_even p (q * 2 ^ nat s) else round_even (p * 2 ^ nat (- s)) q)
      in if 0 \<le> s then (if 1024 < bits (N * 2 ^ nat s) then None else Some (N * 2 ^ nat s))
         else if N mod 2 ^ nat (- s) = 0 then Some (N div 2 ^ nat (- s))
         else None)"

text \<open>
  \<^verbatim>\<open>Number(s)\<close> for a string, with \<open>None\<close> for \<^verbatim>\<open>NaN\<close>.  The string is trimmed.  The empty
  string is \<open>0\<close>.  A literal \<^verbatim>\<open>0x\<close>, \<^verbatim>\<open>0o\<close> or \<^verbatim>\<open>0b\<close> with digits of that radix is that
  integer.  Otherwise an optional sign is followed by \<^verbatim>\<open>Infinity\<close> or by a decimal literal:
  digits with an optional fraction, or a fraction alone, and an optional exponent.  The
  value is the double nearest to the literal.  A literal whose double is not an integer
  (\<^verbatim>\<open>1.5\<close>, \<^verbatim>\<open>Infinity\<close>) has no value among the integers of this model and is read as
  \<^verbatim>\<open>NaN\<close> here; no theorem below applies \<^verbatim>\<open>Number\<close> to such a string.
\<close>

definition digit_val :: "int \<Rightarrow> char \<Rightarrow> int option" where
  "digit_val radix c =
     (let n = (of_char c :: int);
          v = (if 48 \<le> n \<and> n \<le> 57 then n - 48
               else if 97 \<le> n \<and> n \<le> 102 then n - 87
               else if 65 \<le> n \<and> n \<le> 70 then n - 55
               else 16)
      in if v < radix then Some v else None)"

fun digits_val :: "int \<Rightarrow> int \<Rightarrow> string \<Rightarrow> int option" where
  "digits_val radix acc [] = Some acc"
| "digits_val radix acc (c # cs) =
     (case digit_val radix c of None \<Rightarrow> None | Some v \<Rightarrow> digits_val radix (radix * acc + v) cs)"

definition is_digit :: "char \<Rightarrow> bool" where
  "is_digit c = (digit_val 10 c \<noteq> None)"

text \<open>The exponent part: empty, or \<^verbatim>\<open>e\<close> or \<^verbatim>\<open>E\<close>, an optional sign and at least one digit.\<close>

definition exponent_val :: "string \<Rightarrow> int option" where
  "exponent_val s =
     (case s of
        [] \<Rightarrow> Some 0
      | c # cs \<Rightarrow>
          if c = CHR ''e'' \<or> c = CHR ''E'' then
            (case cs of
               [] \<Rightarrow> None
             | d # ds \<Rightarrow>
                 if d = CHR ''-'' then (if ds = [] then None else map_option uminus (digits_val 10 0 ds))
                 else if d = CHR ''+'' then (if ds = [] then None else digits_val 10 0 ds)
                 else digits_val 10 0 cs)
          else None)"

text \<open>
  An unsigned decimal literal as mantissa and decimal exponent: its value is
  \<open>m * 10 ^ k\<close>.
\<close>

definition decimal_val :: "string \<Rightarrow> (int \<times> int) option" where
  "decimal_val s =
     (let ip = takeWhile is_digit s;
          r1 = dropWhile is_digit s;
          fp = (case r1 of [] \<Rightarrow> [] | c # cs \<Rightarrow> if c = CHR ''.'' then takeWhile is_digit cs else []);
          r2 = (case r1 of [] \<Rightarrow> [] | c # cs \<Rightarrow> if c = CHR ''.'' then dropWhile is_digit cs else r1)
      in if ip = [] \<and> fp = [] then None
         else (case (digits_val 10 0 (ip @ fp), exponent_val r2) of
                 (Some m, Some e) \<Rightarrow> Some (m, e - int (length fp))
               | _ \<Rightarrow> None))"

text \<open>
  The double of \<open>m * 10 ^ k\<close> for \<open>0 \<le> m\<close>, when it is an integer.  A value of at least
  \<open>10 ^ 400\<close> is infinite and a value below \<open>10 ^ - 400\<close> is \<open>0\<close> (the two tests bound
  the value by the bit length of \<open>m\<close>); between these the value is rounded.
\<close>

definition decimal_double :: "int \<Rightarrow> int \<Rightarrow> int option" where
  "decimal_double m k =
     (if m = 0 then Some 0
      else if 400 < 3 * (int (bits m) - 1) div 10 + k then None
      else if int (bits m) + k < - 400 then Some 0
      else if 0 \<le> k then (if m * 10 ^ nat k \<le> 2 ^ 53 then Some (m * 10 ^ nat k)
                           else double_int (m * 10 ^ nat k) 1)
      else double_int m (10 ^ nat (- k)))"

definition radix_val :: "int \<Rightarrow> string \<Rightarrow> int option" where
  "radix_val radix ds =
     (if ds = [] then None
      else (case digits_val radix 0 ds of
              None \<Rightarrow> None
            | Some n \<Rightarrow> if n \<le> 2 ^ 53 then Some n else double_int n 1))"

definition unsigned_val :: "string \<Rightarrow> int option" where
  "unsigned_val s =
     (case decimal_val s of None \<Rightarrow> None | Some (m, k) \<Rightarrow> decimal_double m k)"

definition StringToNumber :: "string \<Rightarrow> int option" where
  "StringToNumber s0 =
     (let s = trim s0
      in case s of
           [] \<Rightarrow> Some 0
         | c # cs \<Rightarrow>
             if c = CHR ''0'' \<and> cs \<noteq> [] \<and> hd cs \<in> set ''xX'' then radix_val 16 (tl cs)
             else if c = CHR ''0'' \<and> cs \<noteq> [] \<and> hd cs \<in> set ''oO'' then radix_val 8 (tl cs)
             else if c = CHR ''0'' \<and> cs \<noteq> [] \<and> hd cs \<in> set ''bB'' then radix_val 2 (tl cs)
             else if c = CHR ''-'' then map_option uminus (unsigned_val cs)
             else if c = CHR ''+'' then unsigned_val cs
             else unsigned_val s)"

text \<open>
  \<^verbatim>\<open>Number(v)\<close>, with \<open>None\<close> for \<^verbatim>\<open>NaN\<close>: \<^verbatim>\<open>undefined\<close> and objects are \<^verbatim>\<open>NaN\<close>, \<^verbatim>\<open>null\<close>
  and \<^verbatim>\<open>false\<close> are \<open>0\<close>, \<^verbatim>\<open>true\<close> is \<open>1\<close>, and an array is read through its string.
\<close>

definition Number :: "jsval \<Rightarrow> int option" where
  "Number v =
     (case v of
        None \<Rightarrow> None
      | Some JNull \<Rightarrow> Some 0
      | Some (JBool b) \<Rightarrow> Some (if b then 1 else 0)
      | Some (JNum n) \<Rightarrow> Some n
      | Some (JStr s) \<Rightarrow> StringToNumber s
      | Some (JArr xs) \<Rightarrow> StringToNumber (js_String (JArr xs))
      | Some (JObj kvs) \<Rightarrow> None)"

text \<open>\<^verbatim>\<open>Number(v) || 0\<close>: \<^verbatim>\<open>NaN\<close> and \<open>0\<close> are falsy.\<close>

definition num_or0 :: "int option \<Rightarrow> int" where
  "num_or0 n = (case n of None \<Rightarrow> 0 | Some k \<Rightarrow> k)"

text \<open>Truthiness of a number: neither \<^verbatim>\<open>NaN\<close> nor \<open>0\<close>.\<close>

definition num_truthy :: "int option \<Rightarrow> bool" where
  "num_truthy n = (case n of None \<Rightarrow> False | Some k \<Rightarrow> k \<noteq> 0)"

text \<open>
  \<^verbatim>\<open>s.split(/[...]+/)\<close> for a character class: the pieces between maximal runs of
  separator characters (a leading or trailing run gives an empty first or last piece).
\<close>

function split_runs :: "(char \<Rightarrow> bool) \<Rightarrow> string \<Rightarrow> string \<Rightarrow> string list" where
  "split_runs sep cur [] = [cur]"
| "split_runs sep cur (c # cs) =
     (if sep c then cur # split_runs sep [] (dropWhile sep cs)
      else split_runs sep (cur @ [c]) cs)"
  by pat_completeness auto
termination
  by (relation "measure (\<lambda>(sep, cur, s). length s)")
     (auto simp: le_imp_less_Suc length_dropWhile_le)

definition split_on :: "string \<Rightarrow> string \<Rightarrow> string list" where
  "split_on seps s = split_runs (\<lambda>c. c \<in> set seps) [] s"

text \<open>\<^verbatim>\<open>s.split(re).map(s => s.trim()).filter(Boolean)\<close> as a JSON array of strings.\<close>

definition split_tags :: "string \<Rightarrow> string \<Rightarrow> json" where
  "split_tags seps s = JArr (map JStr (filter (\<lambda>t. t \<noteq> []) (map trim (split_on seps s))))"

text \<open>\<^verbatim>\<open>a && b\<close>.\<close>

definition js_and :: "jsval \<Rightarrow> jsval \<Rightarrow> jsval" where
  "js_and a b = (if truthy a then b else a)"

text \<open>\<^verbatim>\<open>a === b\<close> for two numbers: \<^verbatim>\<open>NaN\<close> equals nothing.\<close>

definition num_eq :: "int option \<Rightarrow> int option \<Rightarrow> bool" where
  "num_eq a b = (case (a, b) of (Some x, Some y) \<Rightarrow> x = y | _ \<Rightarrow> False)"

text \<open>\<^verbatim>\<open>v === n\<close> for a stored value and a number: only a number can equal a number.\<close>

definition is_num :: "jsval \<Rightarrow> int option \<Rightarrow> bool" where
  "is_num v n = (case v of Some (JNum k) \<Rightarrow> num_eq (Some k) n | _ \<Rightarrow> False)"

text \<open>\<^verbatim>\<open>arr.findIndex(p)\<close>, with \<open>None\<close> for \<open>-1\<close>; \<^verbatim>\<open>arr.find(p)\<close> is the element there.\<close>

fun findIndex :: "('a \<Rightarrow> bool) \<Rightarrow> 'a list \<Rightarrow> nat option" where
  "findIndex p [] = None"
| "findIndex p (x # xs) = (if p x then Some 0 else map_option Suc (findIndex p xs))"

section \<open>The data store: loadData and saveData\<close>

record store =
  people :: "obj list"
  items :: "obj list"

text \<open>The file \<^verbatim>\<open>data.json\<close>: \<open>None\<close> while it does not exist.\<close>

type_synonym disk = "store option"

definition initial :: store where
  "initial = \<lparr>people = [], items = []\<rparr>"

text \<open>
  \<^verbatim>\<open>data.items.reduce((m, it) => Math.max(m, Number(it.id) || 0, Number(it.itemId) || 0), 0)\<close>
\<close>

definition maxId_of :: "obj list \<Rightarrow> int" where
  "maxId_of its =
     fold (\<lambda>it m. max (max m (num_or0 (Number (get it ''id'')))) (num_or0 (Number (get it ''itemId''))))
       its 0"

text \<open>
  The body of \<^verbatim>\<open>data.items.forEach\<close> in \<^verbatim>\<open>loadData\<close>, one definition for each of its
  five steps.  The first step reads and updates the running \<^verbatim>\<open>maxId\<close>.
\<close>

definition ensure_id :: "int \<Rightarrow> obj \<Rightarrow> int \<times> obj" where
  "ensure_id maxId it =
     (if \<not> truthy (get it ''id'') then
        (case Number (get it ''itemId'') of
           Some asNum \<Rightarrow>
             if asNum \<noteq> 0 then (if asNum > maxId then asNum else maxId, put ''id'' (JNum asNum) it)
             else (dbl (maxId + 1), put ''id'' (JNum (dbl (maxId + 1))) it)
         | None \<Rightarrow> (dbl (maxId + 1), put ''id'' (JNum (dbl (maxId + 1))) it))
      else (maxId, it))"

definition ensure_details :: "obj \<Rightarrow> obj" where
  "ensure_details it =
     (if \<not> has it ''details'' then
        put ''details''
          (case get it ''notes'' of
             None \<Rightarrow> JStr []
           | Some JNull \<Rightarrow> JStr []
           | Some v \<Rightarrow> JStr (js_String v)) it
      else it)"

definition ensure_tags :: "obj \<Rightarrow> obj" where
  "ensure_tags it =
     (case get it ''tags'' of
        Some (JArr xs) \<Rightarrow> it
      | _ \<Rightarrow>
         (case get it ''tag'' of
            Some (JStr t) \<Rightarrow>
              if trim t \<noteq> [] then put ''tags'' (split_tags ''/|,'' t) it
              else put ''tags'' (JArr []) it
          | _ \<Rightarrow> put ''tags'' (JArr []) it))"

definition ensure_claimedByCode :: "obj \<Rightarrow> obj" where
  "ensure_claimedByCode it = (if \<not> has it ''claimedByCode'' then put ''claimedByCode'' JNull it else it)"

definition ensure_family :: "obj \<Rightarrow> obj" where
  "ensure_family p =
     (if \<not> has p ''family'' \<or> \<not> truthy (get p ''family'') then put ''family'' (JStr ''default'') p
      else p)"

definition normalize_item :: "int \<Rightarrow> obj \<Rightarrow> int \<times> obj" where
  "normalize_item maxId it =
     (let (maxId', it1) = ensure_id maxId it
      in (maxId', ensure_family (ensure_claimedByCode (ensure_tags (ensure_details it1)))))"

fun normalize_items :: "int \<Rightarrow> obj list \<Rightarrow> obj list" where
  "normalize_items maxId [] = []"
| "normalize_items maxId (it # its) =
     (let (maxId', it') = normalize_item maxId it in it' # normalize_items maxId' its)"

definition normalize :: "store \<Rightarrow> store" where
  "normalize data =
     \<lparr>people = map ensure_family (people data),
      items = normalize_items (maxId_of (items data)) (items data)\<rparr>"

text \<open>
  \<^verbatim>\<open>loadData\<close> returns the parsed and normalized document, and creates the file when it
  does not exist; the second component is the file afterwards.
\<close>

definition loadData :: "disk \<Rightarrow> store \<times> disk" where
  "loadData d = (case d of None \<Rightarrow> (initial, Some initial) | Some s \<Rightarrow> (normalize s, Some s))"

definition saveData :: "store \<Rightarrow> disk" where
  "saveData data = Some data"

section \<open>Requests and responses\<close>

record request =
  params :: "(string \<times> string) list"
  query :: "(string \<times> string) list"
  body :: obj

definition param :: "request \<Rightarrow> string \<Rightarrow> jsval" where
  "param req k = map_option JStr (map_of (params req) k)"

definition qparam :: "request \<Rightarrow> string \<Rightarrow> jsval" where
  "qparam req k = map_option JStr (map_of (query req) k)"

text \<open>
  \<^verbatim>\<open>res.status(n).json(v)\<close>, or an exception that leaves the handler (the error
  middleware then answers with the error's status or 500).
\<close>

datatype response = Response nat json | Uncaught

definition failure :: "nat \<Rightarrow> string \<Rightarrow> response" where
  "failure st msg = Response st (JObj [(''success'', JBool False), (''message'', JStr msg)])"

definition success :: response where
  "success = Response 200 (JObj [(''success'', JBool True)])"

definition default_family :: jsval where
  "default_family = Some (JStr ''default'')"

text \<open>\<^verbatim>\<open>String(i.family || 'default')\<close>\<close>

definition family_of :: "obj \<Rightarrow> string" where
  "family_of i = String (js_or (get i ''family'') default_family)"

section \<open>Claiming and unclaiming\<close>

definition claim :: "request \<Rightarrow> disk \<Rightarrow> response \<times> disk" where
  "claim req d =
     (let viewerCode = get (body req) ''viewerCode'';
          itemId = get (body req) ''itemId'';
          family = js_or (get (body req) ''family'') (js_or (qparam req ''family'') default_family);
          (data, d1) = loadData d;
          idNum = Number itemId
      in case findIndex (\<lambda>i. is_num (get i ''id'') idNum \<and> family_of i = String family) (items data) of
           None \<Rightarrow> (failure 200 ''Item not found.'', d1)
         | Some k \<Rightarrow>
             let item = items data ! k in
             if truthy (get item ''claimedByCode'') \<and> \<not> strict_eq (get item ''claimedByCode'') viewerCode
             then (failure 200 ''This item was already claimed.'', d1)
             else (success,
                   saveData (data\<lparr>items := (items data)[k := put_val ''claimedByCode'' viewerCode item]\<rparr>)))"

definition unclaim :: "request \<Rightarrow> disk \<Rightarrow> response \<times> disk" where
  "unclaim req d =
     (let viewerCode = get (body req) ''viewerCode'';
          itemId = get (body req) ''itemId'';
          family = js_or (get (body req) ''family'') (js_or (qparam req ''family'') default_family);
          (data, d1) = loadData d;
          idNum = Number itemId
      in case findIndex (\<lambda>i. is_num (get i ''id'') idNum \<and> family_of i = String family) (items data) of
           None \<Rightarrow> (failure 200 ''Item not found.'', d1)
         | Some k \<Rightarrow>
             let item = items data ! k in
             if \<not> strict_eq (get item ''claimedByCode'') viewerCode
             then (failure 200 ''You can only unclaim items you claimed.'', d1)
             else (success,
                   saveData (data\<lparr>items := (items data)[k := put ''claimedByCode'' JNull item]\<rparr>)))"

section \<open>The CSV importer\<close>

definition LF :: char where "LF = CHR 0x0A"
definition CR :: char where "CR = CHR 0x0D"
definition DQUOTE :: char where "DQUOTE = CHR 0x22"

text \<open>\<^verbatim>\<open>text.replace(/\r\n/g, '\n')\<close> and then \<^verbatim>\<open>.replace(/\r/g, '\n')\<close>.\<close>

fun crlf_to_lf :: "string \<Rightarrow> string" where
  "crlf_to_lf [] = []"
| "crlf_to_lf [c] = [c]"
| "crlf_to_lf (c # d # cs) =
     (if c = CR \<and> d = LF then LF # crlf_to_lf cs else c # crlf_to_lf (d # cs))"

definition normalize_newlines :: "string \<Rightarrow> string" where
  "normalize_newlines s = map (\<lambda>c. if c = CR then LF else c) (crlf_to_lf s)"

text \<open>
  The first loop of \<^verbatim>\<open>parseCsvText\<close>, over the characters left to read, with the row
  being built (\<^verbatim>\<open>cur\<close>) and \<^verbatim>\<open>inQuotes\<close>.  A double quote toggles \<^verbatim>\<open>inQuotes\<close> and is
  not added to \<^verbatim>\<open>cur\<close>; inside quotes a doubled quote adds one quote and skips the
  second.  After the loop a non-empty \<^verbatim>\<open>cur\<close> is the last row.
\<close>

fun split_rows :: "string \<Rightarrow> bool \<Rightarrow> string \<Rightarrow> string list" where
  "split_rows cur inQuotes [] = (if cur \<noteq> [] then [cur] else [])"
| "split_rows cur inQuotes [ch] =
     (if ch = DQUOTE then split_rows cur (\<not> inQuotes) []
      else if ch = LF \<and> \<not> inQuotes then cur # split_rows [] inQuotes []
      else split_rows (cur @ [ch]) inQuotes [])"
| "split_rows cur inQuotes (ch # nxt # rest) =
     (if ch = DQUOTE then
        (if inQuotes \<and> nxt = DQUOTE then split_rows (cur @ [DQUOTE]) inQuotes rest
         else split_rows cur (\<not> inQuotes) (nxt # rest))
      else if ch = LF \<and> \<not> inQuotes then cur # split_rows [] inQuotes (nxt # rest)
      else split_rows (cur @ [ch]) inQuotes (nxt # rest))"

text \<open>
  The loop of \<^verbatim>\<open>splitRow\<close>, with the columns pushed so far left implicit: it returns the
  columns from the current cell on.  The last cell is pushed after the loop.
\<close>

fun split_cols :: "string \<Rightarrow> bool \<Rightarrow> string \<Rightarrow> string list" where
  "split_cols cell iq [] = [cell]"
| "split_cols cell iq [ch] =
     (if ch = DQUOTE then split_cols cell (\<not> iq) []
      else if ch = CHR '','' \<and> \<not> iq then cell # split_cols [] iq []
      else split_cols (cell @ [ch]) iq [])"
| "split_cols cell iq (ch # nxt # rest) =
     (if ch = DQUOTE then
        (if iq \<and> nxt = DQUOTE then split_cols (cell @ [DQUOTE]) iq rest
         else split_cols cell (\<not> iq) (nxt # rest))
      else if ch = CHR '','' \<and> \<not> iq then cell # split_cols [] iq (nxt # rest)
      else split_cols (cell @ [ch]) iq (nxt # rest))"

definition splitRow :: "string \<Rightarrow> string list" where
  "splitRow row = map trim (split_cols [] False row)"

text \<open>
  One record: for each header column \<^verbatim>\<open>c\<close>, the key is the lower-cased header cell, or
  \<^verbatim>\<open>col\<close> and the column number when the cell is empty, and the value is the field of
  that column, or the empty string when the row is shorter.
\<close>

definition record_of :: "string list \<Rightarrow> string \<Rightarrow> obj" where
  "record_of header row =
     (let fields = splitRow row
      in fold (\<lambda>c ob.
                 put (if header ! c \<noteq> [] then toLowerCase (header ! c) else ''col'' @ string_of_nat c)
                     (JStr (if c < length fields then fields ! c else [])) ob)
           [0 ..< length header] [])"

definition parseCsvText :: "string \<Rightarrow> obj list" where
  "parseCsvText text0 =
     (let rows = split_rows [] False (normalize_newlines text0)
      in case rows of
           [] \<Rightarrow> []
         | first # others \<Rightarrow>
             (let header = map trim (splitRow first)
              in map (record_of header) (filter (\<lambda>r. trim r \<noteq> []) others)))"

text \<open>
  The body of \<^verbatim>\<open>records.forEach\<close> in the upload handler: the item built from one record,
  with the running \<^verbatim>\<open>maxId\<close>.
\<close>

definition empty_str :: jsval where
  "empty_str = Some (JStr [])"

definition csv_item :: "jsval \<Rightarrow> int \<Rightarrow> obj \<Rightarrow> int \<times> obj" where
  "csv_item bodyFamily maxId r =
     (let idNum = Number (js_or (get r ''itemid'') (js_or (get r ''id'') empty_str));
          (maxId', newId) =
            (case idNum of
               Some n \<Rightarrow>
                 if n \<noteq> 0 then (if n > maxId then n else maxId, n)
                 else (dbl (maxId + 1), dbl (maxId + 1))
             | None \<Rightarrow> (dbl (maxId + 1), dbl (maxId + 1)));
          details = js_or (get r ''details'') (js_or (get r ''notes'') empty_str);
          rawTags = js_or (get r ''tags'') (js_or (get r ''tag'') empty_str);
          tags = (case rawTags of
                    Some (JStr t) \<Rightarrow> if trim t \<noteq> [] then split_tags ''/|,;'' t else JArr []
                  | _ \<Rightarrow> JArr []);
          tag = js_or (js_and (Some tags)
                        (case tags of JArr xs \<Rightarrow> Some (JStr (js_join ''/'' xs)) | _ \<Rightarrow> None))
                  empty_str;
          out = put_val ''tag'' tag
               (put_val ''notes'' details
               (put_val ''claimedByCode''
                  (js_or (js_or (get r ''claimedbycode'') (js_or (get r ''claimedby'') empty_str)) (Some JNull))
               (put ''tags'' tags
               (put_val ''family'' (js_or (get r ''family'') (js_or bodyFamily default_family))
               (put_val ''url'' (js_or (get r ''url'') empty_str)
               (put_val ''details'' details
               (put_val ''itemName'' (js_or (get r ''itemname'') (js_or (get r ''name'') empty_str))
               (put_val ''recipientName'' (js_or (get r ''recipientname'') (js_or (get r ''recipient'') empty_str))
               (put_val ''recipientCode'' (js_or (get r ''recipientcode'') (js_or (get r ''recipient'') empty_str))
               (put ''itemId'' (JNum newId)
               (put ''id'' (JNum newId) [])))))))))))
      in (maxId', out))"

fun csv_items :: "jsval \<Rightarrow> int \<Rightarrow> obj list \<Rightarrow> obj list" where
  "csv_items bodyFamily maxId [] = []"
| "csv_items bodyFamily maxId (r # rs) =
     (let (maxId', out) = csv_item bodyFamily maxId r in out # csv_items bodyFamily maxId' rs)"

text \<open>\<^verbatim>\<open>POST /api/admin/upload-csv-text\<close>\<close>

definition upload_csv_text :: "request \<Rightarrow> disk \<Rightarrow> response \<times> disk" where
  "upload_csv_text req d =
     (case get (body req) ''csv'' of
        Some (JStr csv) \<Rightarrow>
          if csv = [] then (failure 400 ''Missing csv text in request body (field `csv`).'', d)
          else
            (let records = parseCsvText csv in
             if records = [] then
               (Response 200 (JObj [(''success'', JBool True), (''added'', JNum 0),
                                    (''message'', JStr ''No rows to add.'')]), d)
             else
               (let (data, d1) = loadData d;
                    maxId = maxId_of (items data);
                    added = csv_items (get (body req) ''family'') maxId records
                in (Response 200 (JObj [(''success'', JBool True), (''added'', JNum (int (length added)))]),
                    saveData (data\<lparr>items := items data @ added\<rparr>))))
      | _ \<Rightarrow> (failure 400 ''Missing csv text in request body (field `csv`).'', d))"

section \<open>Admin: items\<close>

text \<open>\<^verbatim>\<open>GET /api/admin/items\<close>: the items of one family.\<close>

definition admin_items :: "request \<Rightarrow> disk \<Rightarrow> obj list \<times> disk" where
  "admin_items req d =
     (let (data, d1) = loadData d;
          family = js_or (qparam req ''family'') default_family
      in (filter (\<lambda>it. family_of it = String family) (items data), d1))"

text \<open>
  The field updates of \<^verbatim>\<open>PUT /api/admin/item/:id\<close> on the item found, one definition for
  each statement of the source.
\<close>

text \<open>\<^verbatim>\<open>if ('k' in body) item.k = String(body.k || '')\<close>\<close>

definition set_string :: "obj \<Rightarrow> string \<Rightarrow> obj \<Rightarrow> obj" where
  "set_string b k item =
     (if has b k then put k (JStr (String (js_or (get b k) empty_str))) item else item)"

text \<open>\<^verbatim>\<open>if ('notes' in body) item.details = String(body.notes || item.details || '')\<close>\<close>

definition set_notes :: "obj \<Rightarrow> obj \<Rightarrow> obj" where
  "set_notes b item =
     (if has b ''notes''
      then put ''details'' (JStr (String (js_or (js_or (get b ''notes'') (get item ''details'')) empty_str))) item
      else item)"

text \<open>\<^verbatim>\<open>if ('claimedByCode' in body) item.claimedByCode = body.claimedByCode || null\<close>\<close>

definition set_claimedByCode :: "obj \<Rightarrow> obj \<Rightarrow> obj" where
  "set_claimedByCode b item =
     (if has b ''claimedByCode''
      then put_val ''claimedByCode'' (js_or (get b ''claimedByCode'') (Some JNull)) item
      else item)"

text \<open>
  \<^verbatim>\<open>if ('tags' in body)\<close>: an array is mapped through \<^verbatim>\<open>String\<close> and \<^verbatim>\<open>trim\<close> and loses
  its empty strings; a string is split; any other value leaves the tags as they are.
\<close>

definition set_tags :: "obj \<Rightarrow> obj \<Rightarrow> obj" where
  "set_tags b item =
     (case get b ''tags'' of
        Some (JArr xs) \<Rightarrow>
          put ''tags'' (JArr (map JStr (filter (\<lambda>t. t \<noteq> []) (map trim (map js_String xs))))) item
      | Some (JStr t) \<Rightarrow> put ''tags'' (split_tags ''/|,;'' t) item
      | _ \<Rightarrow> item)"

text \<open>\<^verbatim>\<open>item.notes = item.details\<close>\<close>

definition sync_notes :: "obj \<Rightarrow> obj" where
  "sync_notes item = put_val ''notes'' (get item ''details'') item"

text \<open>
  \<^verbatim>\<open>item.tag = (item.tags && item.tags.join('/')) || ''\<close>.  \<open>None\<close> is the \<^verbatim>\<open>TypeError\<close> of
  \<^verbatim>\<open>item.tags.join\<close> when \<^verbatim>\<open>item.tags\<close> is truthy and not an array.
\<close>

definition sync_tag :: "obj \<Rightarrow> obj option" where
  "sync_tag item =
     (case get item ''tags'' of
        Some (JArr xs) \<Rightarrow> Some (put_val ''tag'' (js_or (Some (JStr (js_join ''/'' xs))) empty_str) item)
      | tags \<Rightarrow> if truthy tags then None else Some (put_val ''tag'' (js_or tags empty_str) item))"

text \<open>\<^verbatim>\<open>if (!item.family) item.family = family\<close>\<close>

definition keep_family :: "jsval \<Rightarrow> obj \<Rightarrow> obj" where
  "keep_family family item = (if \<not> truthy (get item ''family'') then put_val ''family'' family item else item)"

definition edit_item :: "obj \<Rightarrow> jsval \<Rightarrow> obj \<Rightarrow> obj option" where
  "edit_item b family item0 =
     (let item1 = set_string b ''recipientCode'' item0;
          item2 = set_string b ''recipientName'' item1;
          item3 = set_string b ''itemName'' item2;
          item4 = set_string b ''details'' item3;
          item5 = set_notes b item4;
          item6 = set_string b ''url'' item5;
          item7 = set_claimedByCode b item6;
          item8 = set_tags b item7;
          item9 = sync_notes item8
      in map_option (keep_family family) (sync_tag item9))"

text \<open>\<^verbatim>\<open>PUT /api/admin/item/:id\<close>\<close>

definition update_item :: "request \<Rightarrow> disk \<Rightarrow> response \<times> disk" where
  "update_item req d =
     (let idNum = Number (param req ''id'') in
      if \<not> num_truthy idNum then (failure 400 ''Invalid id'', d)
      else
        (let (data, d1) = loadData d;
             family = js_or (qparam req ''family'') (js_or (get (body req) ''family'') default_family)
         in case findIndex (\<lambda>i. (num_eq (Number (get i ''id'')) idNum \<or> num_eq (Number (get i ''itemId'')) idNum)
                                \<and> family_of i = String family) (items data) of
              None \<Rightarrow> (failure 404 ''Item not found'', d1)
            | Some k \<Rightarrow>
                (case edit_item (body req) family (items data ! k) of
                   None \<Rightarrow> (Uncaught, d1)
                 | Some item \<Rightarrow>
                     (Response 200 (JObj [(''success'', JBool True), (''item'', JObj item)]),
                      saveData (data\<lparr>items := (items data)[k := item]\<rparr>)))))"

section \<open>Admin: people\<close>

text \<open>
  The field updates of \<^verbatim>\<open>PUT /api/admin/person/:code\<close> on the person found.  \<open>None\<close> is
  the \<^verbatim>\<open>TypeError\<close> of \<^verbatim>\<open>(body.family || '').trim()\<close> when \<^verbatim>\<open>body.family\<close> is truthy and
  not a string.
\<close>

definition edit_person :: "obj \<Rightarrow> jsval \<Rightarrow> obj \<Rightarrow> obj option" where
  "edit_person b lookupFamily person0 =
     (let person1 = (if has b ''name''
                     then put ''name'' (JStr (String (js_or (get b ''name'') empty_str))) person0
                     else person0);
          person2 = (if has b ''preferences''
                     then put_val ''preferences'' (js_or (get b ''preferences'') empty_str) person1
                     else person1)
      in if has b ''family'' then
           (case js_or (get b ''family'') empty_str of
              Some (JStr f) \<Rightarrow>
                Some (put_val ''family'' (js_or (Some (JStr (trim f))) default_family) person2)
            | _ \<Rightarrow> None)
         else if \<not> truthy (get person2 ''family'')
         then Some (put_val ''family'' (js_or lookupFamily default_family) person2)
         else Some person2)"

text \<open>\<^verbatim>\<open>PUT /api/admin/person/:code\<close>\<close>

definition update_person :: "request \<Rightarrow> disk \<Rightarrow> response \<times> disk" where
  "update_person req d =
     (let code = param req ''code'' in
      if \<not> truthy code then (failure 400 ''Missing person code'', d)
      else
        (let (data, d1) = loadData d;
             lookupFamily = js_or (qparam req ''family'') (js_or (get (body req) ''family'') default_family)
         in case findIndex (\<lambda>p. String (get p ''code'') = String code \<and> family_of p = String lookupFamily)
                   (people data) of
              None \<Rightarrow> (failure 404 ''Person not found'', d1)
            | Some k \<Rightarrow>
                (case edit_person (body req) lookupFamily (people data ! k) of
                   None \<Rightarrow> (Uncaught, d1)
                 | Some person \<Rightarrow>
                     (Response 200 (JObj [(''success'', JBool True), (''person'', JObj person)]),
                      saveData (data\<lparr>people := (people data)[k := person]\<rparr>)))))"

text \<open>\<^verbatim>\<open>POST /api/admin/person\<close>\<close>

definition create_person :: "request \<Rightarrow> disk \<Rightarrow> response \<times> disk" where
  "create_person req d =
     (let code = trim (String (js_or (get (body req) ''code'') empty_str));
          name = trim (String (js_or (get (body req) ''name'') empty_str));
          preferences = js_or (get (body req) ''preferences'') empty_str;
          family = js_or (get (body req) ''family'') (js_or (qparam req ''family'') default_family)
      in if code = [] then (failure 400 ''Missing code'', d)
         else
           (let (data, d1) = loadData d in
            case findIndex (\<lambda>p. toLowerCase (String (get p ''code'')) = toLowerCase code) (people data) of
              Some k \<Rightarrow> (failure 409 ''Person with this code already exists'', d1)
            | None \<Rightarrow>
                (let person = put_val ''family'' family
                             (put_val ''preferences'' preferences
                             (put ''name'' (JStr name)
                             (put ''code'' (JStr code) [])))
                 in (Response 200 (JObj [(''success'', JBool True), (''person'', JObj person)]),
                     saveData (data\<lparr>people := people data @ [person]\<rparr>)))))"

text \<open>\<^verbatim>\<open>DELETE /api/admin/person/:code\<close>: \<^verbatim>\<open>splice(idx, 1)\<close> and the filter on the items.\<close>

definition delete_person :: "request \<Rightarrow> disk \<Rightarrow> response \<times> disk" where
  "delete_person req d =
     (let code = param req ''code'' in
      if \<not> truthy code then (failure 400 ''Missing code'', d)
      else
        (let (data, d1) = loadData d;
             family = js_or (qparam req ''family'') default_family
         in case findIndex (\<lambda>p. String (get p ''code'') = String code \<and> family_of p = String family)
                   (people data) of
              None \<Rightarrow> (failure 404 ''Person not found'', d1)
            | Some idx \<Rightarrow>
                (success,
                 saveData \<lparr>people = take idx (people data) @ drop (Suc idx) (people data),
                           items = filter (\<lambda>it. \<not> (String (get it ''recipientCode'') = String code
                                                     \<and> family_of it = String family))
                                     (items data)\<rparr>)))"

section \<open>Notions used to state the properties\<close>

subsection \<open>Lookups\<close>

text \<open>
  \<open>first_match p xs k\<close>: \<open>k\<close> is the position \<^verbatim>\<open>find\<close> and \<^verbatim>\<open>findIndex\<close> select, the first
  element that satisfies \<open>p\<close>.  When the ids are unique it is the only one.
\<close>

definition first_match :: "('a \<Rightarrow> bool) \<Rightarrow> 'a list \<Rightarrow> nat \<Rightarrow> bool" where
  "first_match p xs k = (k < length xs \<and> p (xs ! k) \<and> (\<forall>j<k. \<not> p (xs ! j)))"

text \<open>
  The lookup of claim and unclaim, by the numeric id and the family of the request.
\<close>

definition item_matches :: "int option \<Rightarrow> string \<Rightarrow> obj \<Rightarrow> bool" where
  "item_matches idNum family i = (is_num (get i ''id'') idNum \<and> family_of i = family)"

definition request_family :: "request \<Rightarrow> string" where
  "request_family req =
     String (js_or (get (body req) ''family'') (js_or (qparam req ''family'') default_family))"

text \<open>
  The lookup of a person by code and family in the update and the delete of a person, the
  family each of the two requests names, and the items the delete removes with the person.
\<close>

definition person_matches :: "string \<Rightarrow> string \<Rightarrow> obj \<Rightarrow> bool" where
  "person_matches code family p = (String (get p ''code'') = code \<and> family_of p = family)"

definition lookup_family :: "request \<Rightarrow> string" where
  "lookup_family req =
     String (js_or (qparam req ''family'') (js_or (get (body req) ''family'') default_family))"

definition delete_family :: "request \<Rightarrow> string" where
  "delete_family req = String (js_or (qparam req ''family'') default_family)"

definition cascades :: "string \<Rightarrow> string \<Rightarrow> obj \<Rightarrow> bool" where
  "cascades code family it = (String (get it ''recipientCode'') = code \<and> family_of it = family)"

text \<open>
  The family that \<^verbatim>\<open>(body.family || '').trim() || 'default'\<close> gives for a string \<open>f\<close>.
\<close>

definition new_family :: "string \<Rightarrow> string" where
  "new_family f = (if trim f = [] then ''default'' else trim f)"

subsection \<open>Normalized stores\<close>

text \<open>
  An item, and a store, that \<^verbatim>\<open>loadData\<close> leaves as it is.
\<close>

definition normalized_item :: "obj \<Rightarrow> bool" where
  "normalized_item it =
     (truthy (get it ''id'') \<and> has it ''details'' \<and> (\<exists>xs. get it ''tags'' = Some (JArr xs)) \<and>
      has it ''claimedByCode'' \<and> truthy (get it ''family''))"

definition normalized :: "store \<Rightarrow> bool" where
  "normalized s = ((\<forall>it\<in>set (items s). normalized_item it) \<and> (\<forall>p\<in>set (people s). truthy (get p ''family'')))"

subsection \<open>The person a create request adds\<close>

text \<open>
  \<^verbatim>\<open>a || b\<close> where \<open>b\<close> is defined, as a value.
\<close>

definition or_else :: "jsval \<Rightarrow> json \<Rightarrow> json" where
  "or_else a b = (case a of None \<Rightarrow> b | Some v \<Rightarrow> if truthy a then v else b)"

text \<open>
  The code of the request after \<^verbatim>\<open>trim\<close>, the object the handler builds from the request,
  and the comparison of the code with the code of a stored person.
\<close>

definition new_code :: "request \<Rightarrow> string" where
  "new_code req = trim (String (js_or (get (body req) ''code'') empty_str))"

definition new_person :: "request \<Rightarrow> obj" where
  "new_person req =
     [(''code'', JStr (new_code req)),
      (''name'', JStr (trim (String (js_or (get (body req) ''name'') empty_str)))),
      (''preferences'', or_else (get (body req) ''preferences'') (JStr [])),
      (''family'', or_else (get (body req) ''family'') (or_else (qparam req ''family'') (JStr ''default'')))]"

definition same_code :: "string \<Rightarrow> obj \<Rightarrow> bool" where
  "same_code c p = (toLowerCase (String (get p ''code'')) = toLowerCase c)"

subsection \<open>Sequences of write operations\<close>

text \<open>
  The write operations of the API, and a sequence of them applied to the file.
\<close>

datatype op =
    Claim request
  | Unclaim request
  | UploadCsv request
  | UpdateItem request
  | CreatePerson request
  | UpdatePerson request
  | DeletePerson request

fun handle :: "op \<Rightarrow> disk \<Rightarrow> response \<times> disk" where
  "handle (Claim req) d = claim req d"
| "handle (Unclaim req) d = unclaim req d"
| "handle (UploadCsv req) d = upload_csv_text req d"
| "handle (UpdateItem req) d = update_item req d"
| "handle (CreatePerson req) d = create_person req d"
| "handle (UpdatePerson req) d = update_person req d"
| "handle (DeletePerson req) d = delete_person req d"

fun run :: "op list \<Rightarrow> disk \<Rightarrow> disk" where
  "run [] d = d"
| "run (x # xs) d = run xs (snd (handle x d))"

text \<open>
  The items in the file.
\<close>

definition disk_items :: "disk \<Rightarrow> obj list" where
  "disk_items d = (case d of None \<Rightarrow> [] | Some s \<Rightarrow> items s)"

text \<open>
  The records of the CSV text of an upload request.
\<close>

definition csv_records :: "request \<Rightarrow> obj list" where
  "csv_records req = (case get (body req) ''csv'' of Some (JStr csv) \<Rightarrow> parseCsvText csv | _ \<Rightarrow> [])"

text \<open>
  What the items in the file can be after one operation, from the items in the file before
  and the items that \<^verbatim>\<open>loadData\<close> returned: unchanged, saved as loaded, one item with a new
  \<^verbatim>\<open>claimedByCode\<close>, one item edited, some items removed, or the items of a CSV import
  appended.
\<close>

definition step_shape :: "op \<Rightarrow> obj list \<Rightarrow> obj list \<Rightarrow> obj list \<Rightarrow> bool" where
  "step_shape x before loaded after =
     (after = before \<or> after = loaded
      \<or> (\<exists>k v. k < length loaded \<and> after = loaded[k := put_val ''claimedByCode'' v (loaded ! k)])
      \<or> (\<exists>k b fam item. k < length loaded \<and> edit_item b fam (loaded ! k) = Some item
            \<and> after = loaded[k := item])
      \<or> (\<exists>p. after = filter p loaded)
      \<or> (\<exists>req. x = UploadCsv req
            \<and> after = loaded @ csv_items (get (body req) ''family'') (maxId_of loaded) (csv_records req)))"

subsection \<open>Unique ids\<close>

text \<open>
  An item whose \<^verbatim>\<open>id\<close> and legacy \<^verbatim>\<open>itemId\<close> are integers or absent.
\<close>

definition num_field :: "jsval \<Rightarrow> bool" where
  "num_field v = (case v of None \<Rightarrow> True | Some (JNum n) \<Rightarrow> True | _ \<Rightarrow> False)"

definition id_shape :: "obj \<Rightarrow> bool" where
  "id_shape it = (num_field (get it ''id'') \<and> num_field (get it ''itemId''))"

text \<open>
  \<^verbatim>\<open>it.id || it.itemId\<close>: the id an item has, or the \<^verbatim>\<open>itemId\<close> that \<^verbatim>\<open>loadData\<close> will make
  its id.  An item where this is falsy gets a new id from \<^verbatim>\<open>loadData\<close>.
\<close>

definition own_id :: "obj \<Rightarrow> jsval" where
  "own_id it = js_or (get it ''id'') (get it ''itemId'')"

text \<open>
  The items have integer ids and no two of them have the same own id.
\<close>

definition ids_unique :: "obj list \<Rightarrow> bool" where
  "ids_unique its =
     ((\<forall>it\<in>set its. id_shape it)
      \<and> distinct (map own_id (filter (\<lambda>it. truthy (own_id it)) its)))"

text \<open>
  The ids of the items, in order.
\<close>

definition item_ids :: "obj list \<Rightarrow> jsval list" where
  "item_ids its = map (\<lambda>it. get it ''id'') its"

text \<open>
  Every item has an id, an integer other than \<open>0\<close>, and no two items have the same: the
  items as they are served.
\<close>

definition ids_assigned :: "obj list \<Rightarrow> bool" where
  "ids_assigned its =
     ((\<forall>it\<in>set its. id_shape it \<and> truthy (get it ''id''))
      \<and> distinct (map (\<lambda>it. get it ''id'') its))"

text \<open>
  The ids of the items as \<^verbatim>\<open>loadData\<close> is meant to return them: an item keeps its own id,
  and an item without one gets the greatest id seen so far plus one.
\<close>

fun backfill :: "int \<Rightarrow> obj list \<Rightarrow> jsval list" where
  "backfill m [] = []"
| "backfill m (it # its) =
     (if truthy (own_id it) then own_id it # backfill m its
      else Some (JNum (m + 1)) # backfill (m + 1) its)"

text \<open>
  Whether a string is a numeric literal for \<^verbatim>\<open>Number\<close>, that is, whether \<^verbatim>\<open>Number(s)\<close> is not
  \<^verbatim>\<open>NaN\<close>: the grammar that \<open>StringToNumber\<close> reads, without the value.
\<close>

definition radix_numeric :: "int \<Rightarrow> string \<Rightarrow> bool" where
  "radix_numeric radix ds = (ds \<noteq> [] \<and> digits_val radix 0 ds \<noteq> None)"

definition unsigned_numeric :: "string \<Rightarrow> bool" where
  "unsigned_numeric s = (s = ''Infinity'' \<or> decimal_val s \<noteq> None)"

definition numeric :: "string \<Rightarrow> bool" where
  "numeric s0 =
     (let s = trim s0
      in case s of
           [] \<Rightarrow> True
         | c # cs \<Rightarrow>
             if c = CHR ''0'' \<and> cs \<noteq> [] \<and> hd cs \<in> set ''xX'' then radix_numeric 16 (tl cs)
             else if c = CHR ''0'' \<and> cs \<noteq> [] \<and> hd cs \<in> set ''oO'' then radix_numeric 8 (tl cs)
             else if c = CHR ''0'' \<and> cs \<noteq> [] \<and> hd cs \<in> set ''bB'' then radix_numeric 2 (tl cs)
             else if c = CHR ''-'' then unsigned_numeric cs
             else if c = CHR ''+'' then unsigned_numeric cs
             else unsigned_numeric s)"

text \<open>
  A CSV record that supplies a numeric id: the text of its \<^verbatim>\<open>itemid\<close> or \<^verbatim>\<open>id\<close> column is
  a numeric literal other than zero, the test \<^verbatim>\<open>if (idNum)\<close> of the upload handler.  An
  operation generates its ids when it is not an upload of such a record.
\<close>

definition supplies_id :: "obj \<Rightarrow> bool" where
  "supplies_id r =
     (case js_or (get r ''itemid'') (js_or (get r ''id'') empty_str) of
        Some (JStr t) \<Rightarrow> numeric t \<and> StringToNumber t \<noteq> Some 0
      | v \<Rightarrow> num_truthy (Number v))"

definition generates_ids :: "op \<Rightarrow> bool" where
  "generates_ids x = (case x of UploadCsv req \<Rightarrow> (\<forall>r\<in>set (csv_records req). \<not> supplies_id r) | _ \<Rightarrow> True)"

text \<open>
  The number of ids that a sequence of operations can ask for: one for each item without
  an own id, and one for each record of an upload.
\<close>

definition pending :: "obj list \<Rightarrow> nat" where
  "pending its = length (filter (\<lambda>it. \<not> truthy (own_id it)) its)"

definition rows :: "op \<Rightarrow> nat" where
  "rows x = (case x of UploadCsv req \<Rightarrow> length (csv_records req) | _ \<Rightarrow> 0)"

definition ids_needed :: "obj list \<Rightarrow> op list \<Rightarrow> int" where
  "ids_needed its ops = int (pending its) + int (sum_list (map rows ops))"

text \<open>
  The items with a bound on the numbers in their \<^verbatim>\<open>id\<close> and \<^verbatim>\<open>itemId\<close> fields, and with room
  for \<open>b\<close> more ids below \<open>2^53\<close>, up to which the integers are doubles.
\<close>

definition key_le :: "int \<Rightarrow> obj \<Rightarrow> bool" where
  "key_le B it = (num_or0 (Number (get it ''id'')) \<le> B \<and> num_or0 (Number (get it ''itemId'')) \<le> B)"

definition ids_room :: "nat \<Rightarrow> obj list \<Rightarrow> bool" where
  "ids_room b its = (ids_unique its \<and> maxId_of its + int (pending its) + int b \<le> 2 ^ 53)"

subsection \<open>Legacy fields in sync\<close>

text \<open>
  The two legacy-field equations on an item: \<^verbatim>\<open>notes\<close> equals \<^verbatim>\<open>details\<close>, and \<^verbatim>\<open>tag\<close> is the
  \<^verbatim>\<open>tags\<close> array joined by \<^verbatim>\<open>/\<close>.
\<close>

definition synced :: "obj \<Rightarrow> bool" where
  "synced it =
     (get it ''details'' \<noteq> None \<and> get it ''notes'' = get it ''details'' \<and>
      (case get it ''tags'' of
         Some (JArr xs) \<Rightarrow> get it ''tag'' = Some (JStr (js_join ''/'' xs))
       | _ \<Rightarrow> False))"

definition all_synced :: "obj list \<Rightarrow> bool" where
  "all_synced its = (\<forall>it\<in>set its. synced it)"

section \<open>Example stores and requests\<close>

text \<open>
  A store with one person and one item whose \<^verbatim>\<open>claimedByCode\<close> is \<open>c\<close>, and a claim or unclaim
  request of a viewer for an item id.
\<close>

definition wish :: "json \<Rightarrow> obj" where
  "wish c = [(''id'', JNum 1), (''itemName'', JStr ''Bike''), (''details'', JStr []), (''tags'', JArr []),
             (''claimedByCode'', c), (''family'', JStr ''default'')]"

definition shop :: "json \<Rightarrow> store" where
  "shop c = \<lparr>people = [[(''code'', JStr ''LAUREN''), (''family'', JStr ''default'')]], items = [wish c]\<rparr>"

definition claim_req :: "json \<Rightarrow> int \<Rightarrow> request" where
  "claim_req v n = \<lparr>params = [], query = [], body = [(''viewerCode'', v), (''itemId'', JNum n)]\<rparr>"

text \<open>
  A store with one person of family \<^verbatim>\<open>Rigsby\<close>, and a request that creates a person.
\<close>

definition family_rigsby :: store where
  "family_rigsby =
     \<lparr>people = [[(''code'', JStr ''lauren''), (''name'', JStr ''Lauren''), (''preferences'', JStr ''books''),
                 (''family'', JStr ''Rigsby'')]],
      items = []\<rparr>"

definition person_req :: "string \<Rightarrow> string \<Rightarrow> request" where
  "person_req c f = \<lparr>params = [], query = [], body = [(''code'', JStr c), (''name'', JStr ''Ben''), (''family'', JStr f)]\<rparr>"

text \<open>
  A store where the code \<^verbatim>\<open>LAUREN\<close> exists in two families, a request that deletes a person,
  a request that moves \<^verbatim>\<open>LAUREN\<close> of \<^verbatim>\<open>Rigsby\<close> to the family \<^verbatim>\<open>Jones\<close>, and the store after it.
\<close>

definition two_families :: store where
  "two_families =
     \<lparr>people = [[(''code'', JStr ''LAUREN''), (''family'', JStr ''Rigsby'')],
                [(''code'', JStr ''LAUREN''), (''family'', JStr ''Smith'')]],
      items = [[(''id'', JNum 1), (''recipientCode'', JStr ''LAUREN''), (''details'', JStr ''''),
                (''tags'', JArr []), (''claimedByCode'', JNull), (''family'', JStr ''Rigsby'')],
               [(''id'', JNum 2), (''recipientCode'', JStr ''LAUREN''), (''details'', JStr ''''),
                (''tags'', JArr []), (''claimedByCode'', JNull), (''family'', JStr ''Smith'')],
               [(''id'', JNum 3), (''recipientCode'', JStr ''BEN''), (''details'', JStr ''''),
                (''tags'', JArr []), (''claimedByCode'', JNull), (''family'', JStr ''Rigsby'')]]\<rparr>"

definition delete_req :: "string \<Rightarrow> string \<Rightarrow> request" where
  "delete_req c f = \<lparr>params = [(''code'', c)], query = [(''family'', f)], body = []\<rparr>"

definition move_req :: request where
  "move_req = \<lparr>params = [(''code'', ''LAUREN'')], query = [(''family'', ''Rigsby'')],
               body = [(''family'', JStr '' Jones '')]\<rparr>"

definition moved_families :: store where
  "moved_families =
     \<lparr>people = [[(''code'', JStr ''LAUREN''), (''family'', JStr ''Jones'')],
                [(''code'', JStr ''LAUREN''), (''family'', JStr ''Smith'')]],
      items = items two_families\<rparr>"

text \<open>
  A CSV upload of two rows without ids.
\<close>

definition kite_ball :: request where
  "kite_ball = \<lparr>params = [], query = [], body = [(''csv'', JStr (''itemName'' @ [LF] @ ''Kite'' @ [LF] @ ''Ball''))]\<rparr>"

text \<open>
  A store with an item that has an id, a legacy item that has only an \<^verbatim>\<open>itemId\<close>, and an item
  that has neither.  A store where a legacy \<^verbatim>\<open>itemId\<close> repeats the id of another item, a
  store whose item has the id \<open>2^53\<close>, and two uploads of one record, with and without an
  \<^verbatim>\<open>id\<close> column.
\<close>

definition legacy :: store where
  "legacy = \<lparr>people = [],
              items = [wish JNull,
                       [(''itemId'', JNum 4), (''itemName'', JStr ''Kite'')],
                       [(''itemName'', JStr ''Ball'')]]\<rparr>"

definition legacy_twin :: store where
  "legacy_twin = \<lparr>people = [],
                   items = [[(''id'', JNum 5), (''itemName'', JStr ''Bike'')],
                            [(''itemId'', JNum 5), (''itemName'', JStr ''Kite'')]]\<rparr>"

definition full :: store where
  "full = \<lparr>people = [],
            items = [[(''id'', JNum 9007199254740992), (''itemName'', JStr ''Bike''), (''details'', JStr []),
                      (''tags'', JArr []), (''claimedByCode'', JNull), (''family'', JStr ''default'')]]\<rparr>"

definition kite :: request where
  "kite = \<lparr>params = [], query = [], body = [(''csv'', JStr (''itemName'' @ [LF] @ ''Kite''))]\<rparr>"

definition kite_1 :: request where
  "kite_1 = \<lparr>params = [], query = [], body = [(''csv'', JStr (''id,itemName'' @ [LF] @ ''1.0,Kite''))]\<rparr>"

text \<open>
  A store with one person whose code is \<^verbatim>\<open>EVA\<close> written with the capital E acute, \<open>0xC9\<close>.
\<close>

definition family_eva :: store where
  "family_eva =
     \<lparr>people = [[(''code'', JStr [CHR 0xC9, CHR ''V'', CHR ''A'']), (''family'', JStr ''Rigsby'')]],
      items = []\<rparr>"

text \<open>
  A store whose item has \<^verbatim>\<open>notes\<close> and \<^verbatim>\<open>tag\<close> that disagree with \<^verbatim>\<open>details\<close> and \<^verbatim>\<open>tags\<close>, an
  admin update of that item, and a store whose item is in sync.
\<close>

definition stale :: store where
  "stale = \<lparr>people = [],
             items = [[(''id'', JNum 1), (''details'', JStr ''new''), (''notes'', JStr ''old''),
                       (''tags'', JArr [JStr ''a'']), (''tag'', JStr ''a/b''),
                       (''claimedByCode'', JNull), (''family'', JStr ''default'')]]\<rparr>"

definition edit_req :: request where
  "edit_req = \<lparr>params = [(''id'', ''1'')], query = [],
               body = [(''details'', JStr ''red one''), (''tags'', JStr ''x, y'')]\<rparr>"

definition tidy :: store where
  "tidy = \<lparr>people = [],
            items = [[(''id'', JNum 1), (''details'', JStr ''new''), (''notes'', JStr ''new''),
                      (''tags'', JArr [JStr ''a'', JStr ''b'']), (''tag'', JStr ''a/b''),
                      (''claimedByCode'', JNull), (''family'', JStr ''default'')]]\<rparr>"

section \<open>Objects and lookups\<close>

lemma get_put: "get (put k v ob) k' = (if k' = k then Some v else get ob k')"
  by (simp add: get_def put_def update_conv')

lemma has_put: "has (put k v ob) k' = (k' = k \<or> has ob k')"
  by (simp add: has_def put_def update_conv')

lemma has_get: "has ob k = (get ob k \<noteq> None)"
  by (simp add: has_def get_def)

lemma put_triv: "get ob k = Some v \<Longrightarrow> put k v ob = ob"
  by (simp add: get_def put_def update_triv)

lemma truthy_has: "truthy (get ob k) \<Longrightarrow> has ob k"
  by (cases "get ob k") (auto simp: has_get)

lemma put_val_triv: "truthy (get ob k) \<Longrightarrow> put_val k (get ob k) ob = ob"
  by (cases "get ob k") (auto simp: put_val_def put_triv)

lemma strict_eq_same: "strict_eq a b \<Longrightarrow> a = b"
  by (induction a b rule: strict_eq.induct) auto

lemma findIndex_None_iff: "findIndex p xs = None \<longleftrightarrow> (\<forall>x\<in>set xs. \<not> p x)"
  by (induction xs) auto

lemma findIndex_Some_iff: "findIndex p xs = Some k \<longleftrightarrow> first_match p xs k"
proof (induction xs arbitrary: k)
  case Nil
  then show ?case by (simp add: first_match_def)
next
  case (Cons x xs)
  show ?case
  proof (cases "p x")
    case True
    then show ?thesis
      by (cases k) (auto simp: first_match_def)
  next
    case False
    show ?thesis
    proof (cases k)
      case 0
      with False show ?thesis by (auto simp: first_match_def)
    next
      case (Suc n)
      have "first_match p (x # xs) (Suc n) \<longleftrightarrow> first_match p xs n"
        using False by (auto simp: first_match_def less_Suc_eq_0_disj)
      with False Suc Cons.IH [of n] show ?thesis by auto
    qed
  qed
qed

section \<open>Rounding to doubles\<close>

lemma bits_lower: "0 < n \<Longrightarrow> 2 ^ (bits n - 1) \<le> n"
proof (induction n rule: bits.induct)
  case (1 n)
  show ?case
  proof (cases "n div 2 = 0")
    case True
    with "1.prems" show ?thesis by (simp add: bits.simps [of n] bits.simps [of 0])
  next
    case False
    with "1.prems" have p: "0 < n div 2" by (simp add: pos_imp_zdiv_pos_iff)
    with "1.IH" "1.prems" have "2 ^ (bits (n div 2) - 1) \<le> n div 2" by simp
    moreover from p have "0 < bits (n div 2)" by (simp add: bits.simps [of "n div 2"])
    ultimately have "2 ^ bits (n div 2) \<le> 2 * (n div 2)"
      by (cases "bits (n div 2)") simp_all
    also have "\<dots> \<le> n" by simp
    finally show ?thesis using "1.prems" by (simp add: bits.simps [of n])
  qed
qed

lemma round_even_ge: "0 \<le> a \<Longrightarrow> 0 < b \<Longrightarrow> a div b \<le> round_even a b"
  by (simp add: round_even_def Let_def)

lemma dbl_pos: "0 < n \<Longrightarrow> 0 < dbl n"
proof (cases "\<bar>n\<bar> \<le> 2 ^ 53")
  case True
  assume "0 < n"
  with True show ?thesis by (simp add: dbl_def)
next
  case False
  assume n: "0 < n"
  let ?s = "bits \<bar>n\<bar> - 53"
  from n have "(2::int) ^ ?s \<le> 2 ^ (bits n - 1)"
    by (intro power_increasing) simp_all
  also from n have "\<dots> \<le> n" by (rule bits_lower)
  finally have le: "(2::int) ^ ?s \<le> n" .
  then have "1 \<le> n div 2 ^ ?s"
    by (simp add: pos_imp_zdiv_pos_iff Suc_le_eq int_one_le_iff_zero_less)
  also from n have "\<dots> \<le> round_even n (2 ^ ?s)" by (intro round_even_ge) simp_all
  finally have "0 < round_even n (2 ^ ?s) * 2 ^ ?s" by simp
  with False n show ?thesis by (simp add: dbl_def Let_def)
qed

lemma dbl_exact: "\<bar>n\<bar> \<le> 2 ^ 53 \<Longrightarrow> dbl n = n"
  by (simp add: dbl_def)

section \<open>Normalization\<close>

lemma dbl_succ_pos: "0 \<le> m \<Longrightarrow> 0 < dbl (m + 1)"
  by (rule dbl_pos) simp

lemma ensure_id_nonneg: "0 \<le> m \<Longrightarrow> 0 \<le> fst (ensure_id m it)"
  using dbl_succ_pos [of m] by (auto simp: ensure_id_def split: option.splits)

lemma normalize_item_fix: "normalized_item it \<Longrightarrow> normalize_item m it = (m, it)"
  by (auto simp: normalized_item_def normalize_item_def ensure_id_def ensure_details_def
      ensure_tags_def ensure_claimedByCode_def ensure_family_def truthy_has)

lemma ensure_id_truthy: "0 \<le> m \<Longrightarrow> truthy (get (snd (ensure_id m it)) ''id'')"
  using dbl_succ_pos [of m] by (auto simp: ensure_id_def get_put split: option.splits)

lemma ensure_id_other: "k \<noteq> ''id'' \<Longrightarrow> get (snd (ensure_id m it)) k = get it k"
  by (auto simp: ensure_id_def get_put split: option.splits)

lemma ensure_details_has: "has (ensure_details it) ''details''"
  by (simp add: ensure_details_def has_put)

lemma ensure_details_other: "k \<noteq> ''details'' \<Longrightarrow> get (ensure_details it) k = get it k"
  by (simp add: ensure_details_def get_put)

lemma ensure_tags_array: "\<exists>xs. get (ensure_tags it) ''tags'' = Some (JArr xs)"
  by (auto simp: ensure_tags_def get_put split_tags_def split: option.splits json.splits)

lemma ensure_tags_other: "k \<noteq> ''tags'' \<Longrightarrow> get (ensure_tags it) k = get it k"
  by (auto simp: ensure_tags_def get_put split: option.splits json.splits)

lemma ensure_claimedByCode_has: "has (ensure_claimedByCode it) ''claimedByCode''"
  by (simp add: ensure_claimedByCode_def has_put)

lemma ensure_claimedByCode_other:
  "k \<noteq> ''claimedByCode'' \<Longrightarrow> get (ensure_claimedByCode it) k = get it k"
  by (simp add: ensure_claimedByCode_def get_put)

lemma ensure_family_truthy: "truthy (get (ensure_family it) ''family'')"
  by (simp add: ensure_family_def get_put)

lemma ensure_family_other: "k \<noteq> ''family'' \<Longrightarrow> get (ensure_family it) k = get it k"
  by (simp add: ensure_family_def get_put)

lemma normalize_item_normalized: "0 \<le> m \<Longrightarrow> normalized_item (snd (normalize_item m it))"
  by (simp add: normalized_item_def normalize_item_def split_beta has_get
      ensure_family_other ensure_family_truthy ensure_claimedByCode_other
      ensure_claimedByCode_has [unfolded has_get] ensure_tags_other ensure_tags_array
      ensure_details_other ensure_details_has [unfolded has_get] ensure_id_truthy)

lemma normalize_item_nonneg: "0 \<le> m \<Longrightarrow> 0 \<le> fst (normalize_item m it)"
  using ensure_id_nonneg [of m it] by (simp add: normalize_item_def split_beta)

lemma normalize_items_normalized:
  "0 \<le> m \<Longrightarrow> it \<in> set (normalize_items m its) \<Longrightarrow> normalized_item it"
proof (induction its arbitrary: m)
  case Nil
  then show ?case by simp
next
  case (Cons a its)
  then show ?case
    using normalize_item_normalized [of m a] normalize_item_nonneg [of m a]
    by (auto simp: split_beta)
qed

lemma normalize_items_fix:
  "(\<And>it. it \<in> set its \<Longrightarrow> normalized_item it) \<Longrightarrow> normalize_items m its = its"
  by (induction its arbitrary: m) (simp_all add: normalize_item_fix)

lemma maxId_of_nonneg: "0 \<le> maxId_of its"
proof -
  have "0 \<le> m \<Longrightarrow>
        0 \<le> fold (\<lambda>it m. max (max m (num_or0 (Number (get it ''id''))))
                             (num_or0 (Number (get it ''itemId'')))) its m" for m
    by (induction its arbitrary: m) (simp_all add: max.coboundedI1)
  then show ?thesis by (simp add: maxId_of_def)
qed

lemma ensure_family_idem: "ensure_family (ensure_family p) = ensure_family p"
  using ensure_family_truthy [of p]
  by (simp add: ensure_family_def [of "ensure_family p"] truthy_has)

text \<open>
  C5.  The normalization that \<^verbatim>\<open>loadData\<close> performs is idempotent: normalizing a
  normalized store changes nothing, for every store.
\<close>

theorem normalize_idempotent: "normalize (normalize data) = normalize data"
proof -
  have "normalize_items m (normalize_items (maxId_of (items data)) (items data))
      = normalize_items (maxId_of (items data)) (items data)" for m
    by (rule normalize_items_fix) (rule normalize_items_normalized [OF maxId_of_nonneg])
  then show ?thesis
    by (simp add: normalize_def ensure_family_idem)
qed

section \<open>Claiming and unclaiming: properties\<close>

lemma claim_unfold:
  "loadData d = (data, d1) \<Longrightarrow>
   claim req d =
     (case findIndex (item_matches (Number (get (body req) ''itemId'')) (request_family req)) (items data) of
        None \<Rightarrow> (failure 200 ''Item not found.'', d1)
      | Some k \<Rightarrow>
          if truthy (get (items data ! k) ''claimedByCode'')
             \<and> \<not> strict_eq (get (items data ! k) ''claimedByCode'') (get (body req) ''viewerCode'')
          then (failure 200 ''This item was already claimed.'', d1)
          else (success,
                Some (data\<lparr>items := (items data)[k := put_val ''claimedByCode'' (get (body req) ''viewerCode'') (items data ! k)]\<rparr>)))"
  by (simp add: claim_def item_matches_def [abs_def] request_family_def saveData_def Let_def
      split: option.split)

lemma loadData_file: "loadData d = (data, d1) \<Longrightarrow> d \<noteq> None \<Longrightarrow> d1 = d"
  by (auto simp: loadData_def split: option.splits)

text \<open>
  C1, as the code has it.  With \<open>data\<close> the store that \<^verbatim>\<open>loadData\<close> returns: when no item has
  the numeric id and the family of the request, \<^verbatim>\<open>POST /api/claim\<close> fails with the
  not-found message and writes nothing.  Otherwise, for the first such item: when its
  \<^verbatim>\<open>claimedByCode\<close> is falsy (\<^verbatim>\<open>null\<close>, but also the empty string, \<open>0\<close> or \<^verbatim>\<open>false\<close>) the call
  succeeds and sets it to \<^verbatim>\<open>viewerCode\<close>; when it is truthy and strictly equal to
  \<^verbatim>\<open>viewerCode\<close> the call succeeds and the store is saved as loaded; when it is truthy and
  different the call fails with the already-claimed message and writes nothing.  The
  file after a failure is the file before it, when it existed.
\<close>

theorem claim_cases:
  assumes load: "loadData d = (data, d1)"
  shows "((\<forall>i\<in>set (items data). \<not> item_matches (Number (get (body req) ''itemId'')) (request_family req) i)
            \<longrightarrow> claim req d = (failure 200 ''Item not found.'', d1))
       \<and> (\<forall>k. first_match (item_matches (Number (get (body req) ''itemId'')) (request_family req)) (items data) k \<longrightarrow>
            (\<not> truthy (get (items data ! k) ''claimedByCode'') \<longrightarrow>
               claim req d = (success, Some (data\<lparr>items := (items data)
                  [k := put_val ''claimedByCode'' (get (body req) ''viewerCode'') (items data ! k)]\<rparr>)))
          \<and> (truthy (get (items data ! k) ''claimedByCode'')
                \<and> strict_eq (get (items data ! k) ''claimedByCode'') (get (body req) ''viewerCode'') \<longrightarrow>
               claim req d = (success, Some data))
          \<and> (truthy (get (items data ! k) ''claimedByCode'')
                \<and> \<not> strict_eq (get (items data ! k) ''claimedByCode'') (get (body req) ''viewerCode'') \<longrightarrow>
               claim req d = (failure 200 ''This item was already claimed.'', d1)))
       \<and> (d \<noteq> None \<longrightarrow> d1 = d)"
proof (intro conjI allI impI)
  assume "\<forall>i\<in>set (items data). \<not> item_matches (Number (get (body req) ''itemId'')) (request_family req) i"
  then show "claim req d = (failure 200 ''Item not found.'', d1)"
    by (simp add: claim_unfold [OF load] findIndex_None_iff [THEN iffD2])
next
  assume "d \<noteq> None"
  with load show "d1 = d" by (rule loadData_file)
next
  fix k
  assume fm: "first_match (item_matches (Number (get (body req) ''itemId'')) (request_family req)) (items data) k"
  then have fi: "findIndex (item_matches (Number (get (body req) ''itemId'')) (request_family req)) (items data) = Some k"
    by (simp add: findIndex_Some_iff)
  {
    assume "\<not> truthy (get (items data ! k) ''claimedByCode'')"
    then show "claim req d = (success, Some (data\<lparr>items := (items data)
                  [k := put_val ''claimedByCode'' (get (body req) ''viewerCode'') (items data ! k)]\<rparr>))"
      by (simp add: claim_unfold [OF load] fi)
  next
    assume a: "truthy (get (items data ! k) ''claimedByCode'')
                \<and> strict_eq (get (items data ! k) ''claimedByCode'') (get (body req) ''viewerCode'')"
    then have "get (body req) ''viewerCode'' = get (items data ! k) ''claimedByCode''"
      by (auto dest: strict_eq_same)
    with a have "put_val ''claimedByCode'' (get (body req) ''viewerCode'') (items data ! k) = items data ! k"
      by (simp add: put_val_triv)
    with a show "claim req d = (success, Some data)"
      by (simp add: claim_unfold [OF load] fi)
  next
    assume "truthy (get (items data ! k) ''claimedByCode'')
                \<and> \<not> strict_eq (get (items data ! k) ''claimedByCode'') (get (body req) ''viewerCode'')"
    then show "claim req d = (failure 200 ''This item was already claimed.'', d1)"
      by (simp add: claim_unfold [OF load] fi)
  }
qed

lemma normalized_wish: "normalized_item (wish c)"
  by (simp add: normalized_item_def wish_def get_def has_def)

lemma load_shop: "loadData (Some (shop c)) = (shop c, Some (shop c))"
  by (simp add: loadData_def normalize_def shop_def normalize_item_fix [OF normalized_wish]
      ensure_family_def get_def has_def)

lemmas eval_defs = first_match_def item_matches_def request_family_def claim_req_def shop_def wish_def
  get_def has_def put_def put_val_def is_num_def num_eq_def Number_def family_of_def String_def js_or_def
  qparam_def default_family_def

text \<open>The four cases of C1 on a store with one item.\<close>

theorem claim_cases_witness:
  "claim (claim_req (JStr ''ANNA'') 1) (Some (shop JNull)) = (success, Some (shop (JStr ''ANNA'')))
   \<and> claim (claim_req (JStr ''ANNA'') 1) (Some (shop (JStr ''ANNA''))) = (success, Some (shop (JStr ''ANNA'')))
   \<and> claim (claim_req (JStr ''BEN'') 1) (Some (shop (JStr ''ANNA'')))
       = (failure 200 ''This item was already claimed.'', Some (shop (JStr ''ANNA'')))
   \<and> claim (claim_req (JStr ''BEN'') 2) (Some (shop (JStr ''ANNA'')))
       = (failure 200 ''Item not found.'', Some (shop (JStr ''ANNA'')))"
proof -
  have m: "first_match (item_matches (Number (get (body (claim_req v 1)) ''itemId''))
             (request_family (claim_req v 1))) (items (shop c)) 0" for v c
    by (simp add: eval_defs)
  have n: "\<forall>i\<in>set (items (shop c)). \<not> item_matches (Number (get (body (claim_req v 2)) ''itemId''))
             (request_family (claim_req v 2)) i" for v c
    by (simp add: eval_defs)
  have 1: "claim (claim_req (JStr ''ANNA'') 1) (Some (shop JNull)) = (success, Some (shop (JStr ''ANNA'')))"
    using claim_cases [OF load_shop [of JNull], where req = "claim_req (JStr ''ANNA'') 1"] m [where v = "JStr ''ANNA''" and c = JNull]
    by (simp add: claim_req_def shop_def wish_def get_def put_val_def put_def)
  have 2: "claim (claim_req (JStr ''ANNA'') 1) (Some (shop (JStr ''ANNA''))) = (success, Some (shop (JStr ''ANNA'')))"
    using claim_cases [OF load_shop [of "JStr ''ANNA''"], where req = "claim_req (JStr ''ANNA'') 1"] m [where v = "JStr ''ANNA''" and c = "JStr ''ANNA''"]
    by (simp add: claim_req_def shop_def wish_def get_def put_val_def put_def)
  have 3: "claim (claim_req (JStr ''BEN'') 1) (Some (shop (JStr ''ANNA'')))
       = (failure 200 ''This item was already claimed.'', Some (shop (JStr ''ANNA'')))"
    using claim_cases [OF load_shop [of "JStr ''ANNA''"], where req = "claim_req (JStr ''BEN'') 1"] m [where v = "JStr ''BEN''" and c = "JStr ''ANNA''"]
    by (simp add: claim_req_def shop_def wish_def get_def put_val_def put_def)
  have 4: "claim (claim_req (JStr ''BEN'') 2) (Some (shop (JStr ''ANNA'')))
       = (failure 200 ''Item not found.'', Some (shop (JStr ''ANNA'')))"
    using claim_cases [OF load_shop [of "JStr ''ANNA''"], where req = "claim_req (JStr ''BEN'') 2"] n [where v = "JStr ''BEN''" and c = "JStr ''ANNA''"]
    by simp
  from 1 2 3 4 show ?thesis by simp
qed

text \<open>
  C1 as stated fails: a claim with the empty string as \<^verbatim>\<open>viewerCode\<close> stores the empty
  string, which is not \<^verbatim>\<open>null\<close> and differs from \<^verbatim>\<open>BEN\<close>; the claim by \<^verbatim>\<open>BEN\<close> that follows
  succeeds and overwrites it.
\<close>

theorem claim_empty_code_counterexample:
  "claim \<lparr>params = [], query = [], body = [(''viewerCode'', JStr ''''), (''itemId'', JNum 1)]\<rparr>
     (Some \<lparr>people = [],
            items = [[(''id'', JNum 1), (''details'', JStr ''''), (''tags'', JArr []),
                      (''claimedByCode'', JNull), (''family'', JStr ''default'')]]\<rparr>)
   = (success,
      Some \<lparr>people = [],
            items = [[(''id'', JNum 1), (''details'', JStr ''''), (''tags'', JArr []),
                      (''claimedByCode'', JStr ''''), (''family'', JStr ''default'')]]\<rparr>)
   \<and> JStr '''' \<noteq> JNull \<and> JStr '''' \<noteq> JStr ''BEN''
   \<and> claim \<lparr>params = [], query = [], body = [(''viewerCode'', JStr ''BEN''), (''itemId'', JNum 1)]\<rparr>
     (Some \<lparr>people = [],
            items = [[(''id'', JNum 1), (''details'', JStr ''''), (''tags'', JArr []),
                      (''claimedByCode'', JStr ''''), (''family'', JStr ''default'')]]\<rparr>)
   = (success,
      Some \<lparr>people = [],
            items = [[(''id'', JNum 1), (''details'', JStr ''''), (''tags'', JArr []),
                      (''claimedByCode'', JStr ''BEN''), (''family'', JStr ''default'')]]\<rparr>)"
  by code_simp

lemma unclaim_unfold:
  "loadData d = (data, d1) \<Longrightarrow>
   unclaim req d =
     (case findIndex (item_matches (Number (get (body req) ''itemId'')) (request_family req)) (items data) of
        None \<Rightarrow> (failure 200 ''Item not found.'', d1)
      | Some k \<Rightarrow>
          if \<not> strict_eq (get (items data ! k) ''claimedByCode'') (get (body req) ''viewerCode'')
          then (failure 200 ''You can only unclaim items you claimed.'', d1)
          else (success,
                Some (data\<lparr>items := (items data)[k := put ''claimedByCode'' JNull (items data ! k)]\<rparr>)))"
  by (simp add: unclaim_def item_matches_def [abs_def] request_family_def saveData_def Let_def
      split: option.split)

lemma failure_not_success: "failure st msg \<noteq> success"
  by (simp add: failure_def success_def)

text \<open>
  C2, as the code has it.  \<^verbatim>\<open>POST /api/unclaim\<close> succeeds exactly when the first item with
  the numeric id and the family of the request has a \<^verbatim>\<open>claimedByCode\<close> strictly equal to
  \<^verbatim>\<open>viewerCode\<close>, and then sets it to \<^verbatim>\<open>null\<close>.  When that item has another
  \<^verbatim>\<open>claimedByCode\<close> the call fails with the permission message; when there is no such
  item it fails with the not-found message.  A failure writes nothing.
\<close>

theorem unclaim_cases:
  assumes load: "loadData d = (data, d1)"
  shows "((\<forall>i\<in>set (items data). \<not> item_matches (Number (get (body req) ''itemId'')) (request_family req) i)
            \<longrightarrow> unclaim req d = (failure 200 ''Item not found.'', d1))
       \<and> (\<forall>k. first_match (item_matches (Number (get (body req) ''itemId'')) (request_family req)) (items data) k \<longrightarrow>
            (strict_eq (get (items data ! k) ''claimedByCode'') (get (body req) ''viewerCode'') \<longrightarrow>
               unclaim req d = (success, Some (data\<lparr>items := (items data)
                  [k := put ''claimedByCode'' JNull (items data ! k)]\<rparr>)))
          \<and> (\<not> strict_eq (get (items data ! k) ''claimedByCode'') (get (body req) ''viewerCode'') \<longrightarrow>
               unclaim req d = (failure 200 ''You can only unclaim items you claimed.'', d1)))
       \<and> (fst (unclaim req d) = success \<longleftrightarrow>
            (\<exists>k. first_match (item_matches (Number (get (body req) ''itemId'')) (request_family req)) (items data) k
                 \<and> strict_eq (get (items data ! k) ''claimedByCode'') (get (body req) ''viewerCode'')))
       \<and> (d \<noteq> None \<longrightarrow> d1 = d)"
proof -
  let ?p = "item_matches (Number (get (body req) ''itemId'')) (request_family req)"
  have none: "unclaim req d = (failure 200 ''Item not found.'', d1)" if "\<forall>i\<in>set (items data). \<not> ?p i"
    using that by (simp add: unclaim_unfold [OF load] findIndex_None_iff [THEN iffD2])
  have yes: "unclaim req d = (success, Some (data\<lparr>items := (items data)
                  [k := put ''claimedByCode'' JNull (items data ! k)]\<rparr>))"
    if "first_match ?p (items data) k"
      and "strict_eq (get (items data ! k) ''claimedByCode'') (get (body req) ''viewerCode'')" for k
    using that by (simp add: unclaim_unfold [OF load] findIndex_Some_iff [THEN iffD2])
  have no: "unclaim req d = (failure 200 ''You can only unclaim items you claimed.'', d1)"
    if "first_match ?p (items data) k"
      and "\<not> strict_eq (get (items data ! k) ''claimedByCode'') (get (body req) ''viewerCode'')" for k
    using that by (simp add: unclaim_unfold [OF load] findIndex_Some_iff [THEN iffD2])
  have iff: "fst (unclaim req d) = success \<longleftrightarrow>
            (\<exists>k. first_match ?p (items data) k
                 \<and> strict_eq (get (items data ! k) ''claimedByCode'') (get (body req) ''viewerCode''))"
  proof (cases "findIndex ?p (items data)")
    case None
    then have "\<forall>i\<in>set (items data). \<not> ?p i" by (simp add: findIndex_None_iff)
    moreover from None have "\<not> first_match ?p (items data) k" for k
      by (simp add: findIndex_Some_iff [symmetric])
    ultimately show ?thesis using none by (simp add: failure_not_success)
  next
    case (Some k)
    then have fm: "first_match ?p (items data) k" by (simp add: findIndex_Some_iff)
    have uniq: "k' = k" if "first_match ?p (items data) k'" for k'
      using that Some by (simp add: findIndex_Some_iff [symmetric])
    show ?thesis
    proof (cases "strict_eq (get (items data ! k) ''claimedByCode'') (get (body req) ''viewerCode'')")
      case True
      with fm yes [OF fm True] show ?thesis by auto
    next
      case False
      with no [OF fm False] uniq show ?thesis by (auto simp: failure_not_success)
    qed
  qed
  from none yes no iff loadData_file [OF load] show ?thesis by blast
qed

text \<open>
  C2 as stated fails: when no item has the id, the failure carries the not-found
  message, not the permission message.
\<close>

theorem unclaim_not_found_counterexample:
  "unclaim \<lparr>params = [], query = [], body = [(''viewerCode'', JStr ''ANNA''), (''itemId'', JNum 7)]\<rparr>
     (Some \<lparr>people = [],
            items = [[(''id'', JNum 1), (''details'', JStr ''''), (''tags'', JArr []),
                      (''claimedByCode'', JStr ''ANNA''), (''family'', JStr ''default'')]]\<rparr>)
   = (Response 200 (JObj [(''success'', JBool False), (''message'', JStr ''Item not found.'')]),
      Some \<lparr>people = [],
            items = [[(''id'', JNum 1), (''details'', JStr ''''), (''tags'', JArr []),
                      (''claimedByCode'', JStr ''ANNA''), (''family'', JStr ''default'')]]\<rparr>)"
  by code_simp

text \<open>The three cases of C2 on a store with one item.\<close>

theorem unclaim_cases_witness:
  "unclaim (claim_req (JStr ''ANNA'') 1) (Some (shop (JStr ''ANNA''))) = (success, Some (shop JNull))
   \<and> unclaim (claim_req (JStr ''BEN'') 1) (Some (shop (JStr ''ANNA'')))
       = (failure 200 ''You can only unclaim items you claimed.'', Some (shop (JStr ''ANNA'')))
   \<and> unclaim (claim_req (JStr ''ANNA'') 2) (Some (shop (JStr ''ANNA'')))
       = (failure 200 ''Item not found.'', Some (shop (JStr ''ANNA'')))"
proof -
  have m: "first_match (item_matches (Number (get (body (claim_req v 1)) ''itemId''))
             (request_family (claim_req v 1))) (items (shop c)) 0" for v c
    by (simp add: eval_defs)
  have n: "\<forall>i\<in>set (items (shop c)). \<not> item_matches (Number (get (body (claim_req v 2)) ''itemId''))
             (request_family (claim_req v 2)) i" for v c
    by (simp add: eval_defs)
  have 1: "unclaim (claim_req (JStr ''ANNA'') 1) (Some (shop (JStr ''ANNA''))) = (success, Some (shop JNull))"
    using unclaim_cases [OF load_shop [of "JStr ''ANNA''"], where req = "claim_req (JStr ''ANNA'') 1"]
      m [where v = "JStr ''ANNA''" and c = "JStr ''ANNA''"]
    by (simp add: claim_req_def shop_def wish_def get_def put_def)
  have 2: "unclaim (claim_req (JStr ''BEN'') 1) (Some (shop (JStr ''ANNA'')))
       = (failure 200 ''You can only unclaim items you claimed.'', Some (shop (JStr ''ANNA'')))"
    using unclaim_cases [OF load_shop [of "JStr ''ANNA''"], where req = "claim_req (JStr ''BEN'') 1"]
      m [where v = "JStr ''BEN''" and c = "JStr ''ANNA''"]
    by (simp add: claim_req_def shop_def wish_def get_def put_def)
  have 3: "unclaim (claim_req (JStr ''ANNA'') 2) (Some (shop (JStr ''ANNA'')))
       = (failure 200 ''Item not found.'', Some (shop (JStr ''ANNA'')))"
    using unclaim_cases [OF load_shop [of "JStr ''ANNA''"], where req = "claim_req (JStr ''ANNA'') 2"]
      n [where v = "JStr ''ANNA''" and c = "JStr ''ANNA''"]
    by simp
  from 1 2 3 show ?thesis by simp
qed





section \<open>CSV import, people: properties\<close>

lemma js_or_Some: "js_or a (Some b) = Some (or_else a b)"
  by (cases a) (auto simp: js_or_def or_else_def)

text \<open>
  C6, at its input.  The first loop of \<^verbatim>\<open>parseCsvText\<close> drops the double quotes while it
  splits the text into rows, so the row reaches \<^verbatim>\<open>splitRow\<close> as \<^verbatim>\<open>Bike,LAUREN,red,shiny\<close> and
  the comma inside the quoted field separates columns: the import adds one item with
  \<^verbatim>\<open>itemName\<close> \<^verbatim>\<open>Bike\<close> and \<^verbatim>\<open>recipientCode\<close> \<^verbatim>\<open>LAUREN\<close>, but its tags are \<^verbatim>\<open>["red"]\<close>.
\<close>

theorem upload_quoted_tags:
  "split_rows [] False
     (normalize_newlines (''itemName,recipientCode,tags'' @ [LF] @ ''Bike,LAUREN,'' @ [DQUOTE] @ ''red,shiny'' @ [DQUOTE] @ [LF]))
     = [''itemName,recipientCode,tags'', ''Bike,LAUREN,red,shiny'']
   \<and> upload_csv_text
       \<lparr>params = [], query = [],
        body = [(''csv'', JStr (''itemName,recipientCode,tags'' @ [LF] @ ''Bike,LAUREN,'' @ [DQUOTE]
                                 @ ''red,shiny'' @ [DQUOTE] @ [LF]))]\<rparr>
       (Some \<lparr>people = [], items = []\<rparr>)
     = (Response 200 (JObj [(''success'', JBool True), (''added'', JNum 1)]),
        Some \<lparr>people = [],
              items = [[(''id'', JNum 1), (''itemId'', JNum 1), (''recipientCode'', JStr ''LAUREN''),
                        (''recipientName'', JStr ''''), (''itemName'', JStr ''Bike''),
                        (''details'', JStr ''''), (''url'', JStr ''''), (''family'', JStr ''default''),
                        (''tags'', JArr [JStr ''red'']), (''claimedByCode'', JNull),
                        (''notes'', JStr ''''), (''tag'', JStr ''red'')]]\<rparr>)"
  by code_simp

lemma create_person_unfold:
  "loadData d = (data, d1) \<Longrightarrow>
   create_person req d =
     (if new_code req = [] then (failure 400 ''Missing code'', d)
      else case findIndex (same_code (new_code req)) (people data) of
             Some k \<Rightarrow> (failure 409 ''Person with this code already exists'', d1)
           | None \<Rightarrow>
               (Response 200 (JObj [(''success'', JBool True), (''person'', JObj (new_person req))]),
                Some (data\<lparr>people := people data @ [new_person req]\<rparr>)))"
  by (simp add: create_person_def new_code_def new_person_def same_code_def [abs_def] Let_def
      saveData_def default_family_def empty_str_def js_or_Some put_val_def put_def
      split: option.split)

text \<open>
  C7.  \<^verbatim>\<open>POST /api/admin/person\<close>, with \<open>new_code\<close> the trimmed string of \<^verbatim>\<open>body.code\<close>: it
  fails with 400 when the code is missing (empty after trimming); otherwise it fails with
  409 when any person of the store, of whatever family, has that code up to letter case;
  otherwise it appends the new person and succeeds.
\<close>

theorem create_person_cases:
  assumes load: "loadData d = (data, d1)"
  shows "(new_code req = [] \<longrightarrow> create_person req d = (failure 400 ''Missing code'', d))
       \<and> (new_code req \<noteq> [] \<and> (\<exists>p\<in>set (people data). same_code (new_code req) p) \<longrightarrow>
            create_person req d = (failure 409 ''Person with this code already exists'', d1))
       \<and> (new_code req \<noteq> [] \<and> (\<forall>p\<in>set (people data). \<not> same_code (new_code req) p) \<longrightarrow>
            create_person req d =
              (Response 200 (JObj [(''success'', JBool True), (''person'', JObj (new_person req))]),
               Some (data\<lparr>people := people data @ [new_person req]\<rparr>)))
       \<and> (d \<noteq> None \<longrightarrow> d1 = d)"
proof (intro conjI impI)
  assume "new_code req = []"
  then show "create_person req d = (failure 400 ''Missing code'', d)"
    by (simp add: create_person_unfold [OF load])
next
  assume a: "new_code req \<noteq> [] \<and> (\<exists>p\<in>set (people data). same_code (new_code req) p)"
  then have "findIndex (same_code (new_code req)) (people data) \<noteq> None"
    by (simp add: findIndex_None_iff)
  with a show "create_person req d = (failure 409 ''Person with this code already exists'', d1)"
    by (auto simp: create_person_unfold [OF load])
next
  assume a: "new_code req \<noteq> [] \<and> (\<forall>p\<in>set (people data). \<not> same_code (new_code req) p)"
  then have "findIndex (same_code (new_code req)) (people data) = None"
    by (simp add: findIndex_None_iff)
  with a show "create_person req d =
              (Response 200 (JObj [(''success'', JBool True), (''person'', JObj (new_person req))]),
               Some (data\<lparr>people := people data @ [new_person req]\<rparr>))"
    by (simp add: create_person_unfold [OF load])
next
  assume "d \<noteq> None"
  with load show "d1 = d" by (rule loadData_file)
qed

lemma load_family_rigsby: "loadData (Some family_rigsby) = (family_rigsby, Some family_rigsby)"
  by code_simp

lemma load_family_eva: "loadData (Some family_eva) = (family_eva, Some family_eva)"
  by code_simp

text \<open>
  C7 on a store with \<^verbatim>\<open>lauren\<close> in family \<^verbatim>\<open>Rigsby\<close>: creating \<^verbatim>\<open>LAUREN\<close> in family
  \<^verbatim>\<open>Smith\<close> is a conflict, a blank code is missing, and \<^verbatim>\<open>BEN\<close> is appended.  On the store
  with \<^verbatim>\<open>EVA\<close> written with the capital E acute, creating \<^verbatim>\<open>eva\<close> written with the small e
  acute, \<open>0xE9\<close>, is a conflict.
\<close>

theorem create_person_cases_witness:
  "create_person (person_req '' LAUREN '' ''Smith'') (Some family_rigsby)
     = (failure 409 ''Person with this code already exists'', Some family_rigsby)
   \<and> create_person (person_req ''  '' ''Smith'') (Some family_rigsby)
     = (failure 400 ''Missing code'', Some family_rigsby)
   \<and> create_person (person_req ''BEN'' ''Smith'') (Some family_rigsby)
     = (Response 200 (JObj [(''success'', JBool True),
          (''person'', JObj [(''code'', JStr ''BEN''), (''name'', JStr ''Ben''), (''preferences'', JStr ''''),
                             (''family'', JStr ''Smith'')])]),
        Some (family_rigsby\<lparr>people := people family_rigsby @
          [[(''code'', JStr ''BEN''), (''name'', JStr ''Ben''), (''preferences'', JStr ''''),
            (''family'', JStr ''Smith'')]]\<rparr>))
   \<and> create_person (person_req [CHR 0xE9, CHR ''v'', CHR ''a''] ''Smith'') (Some family_eva)
     = (failure 409 ''Person with this code already exists'', Some family_eva)"
proof -
  have a: "new_code (person_req '' LAUREN '' ''Smith'') \<noteq> []
           \<and> (\<exists>p\<in>set (people family_rigsby). same_code (new_code (person_req '' LAUREN '' ''Smith'')) p)"
    by code_simp
  have b: "new_code (person_req ''  '' ''Smith'') = []"
    by code_simp
  have c: "new_code (person_req ''BEN'' ''Smith'') \<noteq> []
           \<and> (\<forall>p\<in>set (people family_rigsby). \<not> same_code (new_code (person_req ''BEN'' ''Smith'')) p)"
    by code_simp
  have e: "new_code (person_req [CHR 0xE9, CHR ''v'', CHR ''a''] ''Smith'') \<noteq> []
           \<and> (\<exists>p\<in>set (people family_eva).
                 same_code (new_code (person_req [CHR 0xE9, CHR ''v'', CHR ''a''] ''Smith'')) p)"
    by code_simp
  have p: "new_person (person_req ''BEN'' ''Smith'')
           = [(''code'', JStr ''BEN''), (''name'', JStr ''Ben''), (''preferences'', JStr ''''),
              (''family'', JStr ''Smith'')]"
    by code_simp
  from create_person_cases [OF load_family_rigsby, where req = "person_req '' LAUREN '' ''Smith''"] a
  have 1: "create_person (person_req '' LAUREN '' ''Smith'') (Some family_rigsby)
     = (failure 409 ''Person with this code already exists'', Some family_rigsby)"
    by blast
  from create_person_cases [OF load_family_rigsby, where req = "person_req ''  '' ''Smith''"] b
  have 2: "create_person (person_req ''  '' ''Smith'') (Some family_rigsby)
     = (failure 400 ''Missing code'', Some family_rigsby)"
    by blast
  from create_person_cases [OF load_family_rigsby, where req = "person_req ''BEN'' ''Smith''"] c
  have 3: "create_person (person_req ''BEN'' ''Smith'') (Some family_rigsby)
     = (Response 200 (JObj [(''success'', JBool True), (''person'', JObj (new_person (person_req ''BEN'' ''Smith'')))]),
        Some (family_rigsby\<lparr>people := people family_rigsby @ [new_person (person_req ''BEN'' ''Smith'')]\<rparr>))"
    by blast
  from create_person_cases [OF load_family_eva,
      where req = "person_req [CHR 0xE9, CHR ''v'', CHR ''a''] ''Smith''"] e
  have 4: "create_person (person_req [CHR 0xE9, CHR ''v'', CHR ''a''] ''Smith'') (Some family_eva)
     = (failure 409 ''Person with this code already exists'', Some family_eva)"
    by blast
  from 1 2 3 4 show ?thesis by (simp add: p)
qed

lemma delete_person_unfold:
  "loadData d = (data, d1) \<Longrightarrow> param req ''code'' = Some (JStr code) \<Longrightarrow> code \<noteq> [] \<Longrightarrow>
   delete_person req d =
     (case findIndex (person_matches code (delete_family req)) (people data) of
        None \<Rightarrow> (failure 404 ''Person not found'', d1)
      | Some idx \<Rightarrow>
          (success,
           Some \<lparr>people = take idx (people data) @ drop (Suc idx) (people data),
                 items = filter (\<lambda>it. \<not> cascades code (delete_family req) it) (items data)\<rparr>))"
  by (simp add: delete_person_def person_matches_def [abs_def] cascades_def [abs_def] delete_family_def
      Let_def saveData_def String_def split: option.split)

lemma remove_nth_nth:
  "idx < length xs \<Longrightarrow>
   (take idx xs @ drop (Suc idx) xs) ! j = (if j < idx then xs ! j else xs ! Suc j)"
  by (auto simp: nth_append min_def)

text \<open>
  C8.  When the store has a person with the code and family of the request,
  \<^verbatim>\<open>DELETE /api/admin/person/:code\<close> succeeds; the people afterwards are the people before
  without the first such person, in the same order, and the items afterwards are the
  items before without those whose \<^verbatim>\<open>recipientCode\<close> is the code and whose family is the
  family.  In particular every person and every item of another family stays.
\<close>

theorem delete_person_cascade:
  assumes load: "loadData d = (data, d1)"
    and code: "param req ''code'' = Some (JStr code)" "code \<noteq> []"
    and ex: "p \<in> set (people data)" "person_matches code (delete_family req) p"
  shows "\<exists>idx people' items'.
           delete_person req d = (success, Some \<lparr>people = people', items = items'\<rparr>)
         \<and> first_match (person_matches code (delete_family req)) (people data) idx
         \<and> Suc (length people') = length (people data)
         \<and> (\<forall>j<length people'. people' ! j = (if j < idx then people data ! j else people data ! Suc j))
         \<and> items' = filter (\<lambda>it. \<not> cascades code (delete_family req) it) (items data)
         \<and> (\<forall>q\<in>set (people data). family_of q \<noteq> delete_family req \<longrightarrow> q \<in> set people')
         \<and> (\<forall>it\<in>set (items data). family_of it \<noteq> delete_family req \<longrightarrow> it \<in> set items')"
proof -
  let ?m = "person_matches code (delete_family req)"
  from ex have "findIndex ?m (people data) \<noteq> None"
    by (auto simp: findIndex_None_iff)
  then obtain idx where fi: "findIndex ?m (people data) = Some idx" by auto
  then have fm: "first_match ?m (people data) idx" by (simp add: findIndex_Some_iff)
  then have lt: "idx < length (people data)" and at: "?m (people data ! idx)"
    by (simp_all add: first_match_def)
  let ?people' = "take idx (people data) @ drop (Suc idx) (people data)"
  let ?items' = "filter (\<lambda>it. \<not> cascades code (delete_family req) it) (items data)"
  have res: "delete_person req d = (success, Some \<lparr>people = ?people', items = ?items'\<rparr>)"
    by (simp add: delete_person_unfold [OF load code] fi)
  have len: "Suc (length ?people') = length (people data)"
    using lt by simp
  have nth: "\<forall>j<length ?people'. ?people' ! j = (if j < idx then people data ! j else people data ! Suc j)"
    using lt by (simp add: remove_nth_nth)
  have keepp: "\<forall>q\<in>set (people data). family_of q \<noteq> delete_family req \<longrightarrow> q \<in> set ?people'"
  proof (intro ballI impI)
    fix q assume q: "q \<in> set (people data)" and f: "family_of q \<noteq> delete_family req"
    from q obtain i where i: "i < length (people data)" "people data ! i = q"
      by (auto simp: in_set_conv_nth)
    with f at have "i \<noteq> idx" by (auto simp: person_matches_def)
    then consider "i < idx" | "idx < i" by linarith
    then show "q \<in> set ?people'"
    proof cases
      case 1
      then have "q \<in> set (take idx (people data))"
        using i by (auto simp: in_set_conv_nth) 
      then show ?thesis by simp
    next
      case 2
      then have "q \<in> set (drop (Suc idx) (people data))"
        using i by (auto simp: in_set_conv_nth intro!: exI [of _ "i - Suc idx"])
      then show ?thesis by simp
    qed
  qed
  have keepi: "\<forall>it\<in>set (items data). family_of it \<noteq> delete_family req \<longrightarrow> it \<in> set ?items'"
    by (auto simp: cascades_def)
  from res fm len nth keepp keepi show ?thesis by blast
qed

lemma load_two_families: "loadData (Some two_families) = (two_families, Some two_families)"
  by code_simp

text \<open>
  C8 on a store where \<^verbatim>\<open>LAUREN\<close> exists in two families: deleting her in \<^verbatim>\<open>Rigsby\<close>
  leaves \<^verbatim>\<open>LAUREN\<close> of \<^verbatim>\<open>Smith\<close> and her item, and the item of \<^verbatim>\<open>BEN\<close> in \<^verbatim>\<open>Rigsby\<close>.
\<close>

theorem delete_person_cascade_witness:
  "delete_person (delete_req ''LAUREN'' ''Rigsby'') (Some two_families)
     = (success,
        Some \<lparr>people = [[(''code'', JStr ''LAUREN''), (''family'', JStr ''Smith'')]],
              items = [[(''id'', JNum 2), (''recipientCode'', JStr ''LAUREN''), (''details'', JStr ''''),
                        (''tags'', JArr []), (''claimedByCode'', JNull), (''family'', JStr ''Smith'')],
                       [(''id'', JNum 3), (''recipientCode'', JStr ''BEN''), (''details'', JStr ''''),
                        (''tags'', JArr []), (''claimedByCode'', JNull), (''family'', JStr ''Rigsby'')]]\<rparr>)"
proof -
  let ?req = "delete_req ''LAUREN'' ''Rigsby''"
  have c: "param ?req ''code'' = Some (JStr ''LAUREN'')" "''LAUREN'' \<noteq> []"
    by (simp_all add: param_def delete_req_def)
  have p: "[(''code'', JStr ''LAUREN''), (''family'', JStr ''Rigsby'')] \<in> set (people two_families)"
    by (simp add: two_families_def)
  have m: "person_matches ''LAUREN'' (delete_family ?req) [(''code'', JStr ''LAUREN''), (''family'', JStr ''Rigsby'')]"
    by code_simp
  from delete_person_cascade [OF load_two_families c p m]
  obtain idx people' items' where
    r: "delete_person ?req (Some two_families) = (success, Some \<lparr>people = people', items = items'\<rparr>)"
    and fm: "first_match (person_matches ''LAUREN'' (delete_family ?req)) (people two_families) idx"
    and len: "Suc (length people') = length (people two_families)"
    and nth: "\<forall>j<length people'. people' ! j =
                (if j < idx then people two_families ! j else people two_families ! Suc j)"
    and it: "items' = filter (\<lambda>it. \<not> cascades ''LAUREN'' (delete_family ?req) it) (items two_families)"
    by blast
  have "people two_families ! 0 = [(''code'', JStr ''LAUREN''), (''family'', JStr ''Rigsby'')]"
    by (simp add: two_families_def)
  with m fm have idx: "idx = 0"
    by (cases idx) (auto simp: first_match_def)
  from len have l1: "length people' = 1" by (simp add: two_families_def)
  with nth idx have "people' ! 0 = people two_families ! 1" by simp
  with l1 have pe: "people' = [[(''code'', JStr ''LAUREN''), (''family'', JStr ''Smith'')]]"
    by (cases people') (simp_all add: two_families_def)
  have "filter (\<lambda>it. \<not> cascades ''LAUREN'' (delete_family ?req) it) (items two_families)
      = [[(''id'', JNum 2), (''recipientCode'', JStr ''LAUREN''), (''details'', JStr ''''),
                        (''tags'', JArr []), (''claimedByCode'', JNull), (''family'', JStr ''Smith'')],
                       [(''id'', JNum 3), (''recipientCode'', JStr ''BEN''), (''details'', JStr ''''),
                        (''tags'', JArr []), (''claimedByCode'', JNull), (''family'', JStr ''Rigsby'')]]"
    by code_simp
  with it r pe show ?thesis by simp
qed

lemma ensure_family_fix: "truthy (get p ''family'') \<Longrightarrow> ensure_family p = p"
  by (simp add: ensure_family_def truthy_has)

lemma normalize_fix: "normalized s \<Longrightarrow> normalize s = s"
  by (simp add: normalized_def normalize_def normalize_items_fix ensure_family_fix map_idI)

lemma normalized_normalize: "normalized (normalize s)"
  using normalize_items_normalized [OF maxId_of_nonneg]
  by (auto simp: normalized_def normalize_def ensure_family_truthy)

lemma loadData_normalized:
  assumes "loadData d = (data, d1)"
  shows "normalized data"
proof (cases d)
  case None
  with assms show ?thesis by (auto simp: loadData_def initial_def normalized_def)
next
  case (Some s)
  with assms show ?thesis using normalized_normalize [of s] by (auto simp: loadData_def)
qed

lemma loadData_fix: "normalized s \<Longrightarrow> loadData (Some s) = (s, Some s)"
  by (simp add: loadData_def normalize_fix)

lemma person_update_shape:
  assumes "param req ''code'' = Some (JStr code)" "code \<noteq> []"
    and "get (body req) ''family'' = Some (JStr f)"
  shows "edit_person (body req) fam person
       = Some (put ''family'' (JStr (new_family f))
                (if has (body req) ''preferences''
                 then put ''preferences'' (or_else (get (body req) ''preferences'') (JStr []))
                        (if has (body req) ''name''
                         then put ''name'' (JStr (String (js_or (get (body req) ''name'') empty_str))) person
                         else person)
                 else (if has (body req) ''name''
                       then put ''name'' (JStr (String (js_or (get (body req) ''name'') empty_str))) person
                       else person)))"
  using assms
  by (auto simp: edit_person_def Let_def has_get js_or_def empty_str_def default_family_def put_val_def
      new_family_def or_else_def split: option.splits json.splits)

lemma new_family_nonempty: "new_family f \<noteq> []"
  by (simp add: new_family_def)

lemma update_person_unfold:
  "loadData d = (data, d1) \<Longrightarrow> param req ''code'' = Some (JStr code) \<Longrightarrow> code \<noteq> [] \<Longrightarrow>
   update_person req d =
     (case findIndex (person_matches code (lookup_family req)) (people data) of
        None \<Rightarrow> (failure 404 ''Person not found'', d1)
      | Some k \<Rightarrow>
          (case edit_person (body req)
                  (js_or (qparam req ''family'') (js_or (get (body req) ''family'') default_family))
                  (people data ! k) of
             None \<Rightarrow> (Uncaught, d1)
           | Some person \<Rightarrow>
               (Response 200 (JObj [(''success'', JBool True), (''person'', JObj person)]),
                Some (data\<lparr>people := (people data)[k := person]\<rparr>))))"
  by (simp add: update_person_def person_matches_def [abs_def] lookup_family_def
      Let_def saveData_def String_def split: option.split)

lemma admin_items_unfold:
  "loadData d = (data, d1) \<Longrightarrow>
   fst (admin_items req d)
     = filter (\<lambda>it. family_of it = String (js_or (qparam req ''family'') default_family)) (items data)"
  by (simp add: admin_items_def)

text \<open>
  C9.  \<^verbatim>\<open>PUT /api/admin/person/:code\<close> with a string \<^verbatim>\<open>family\<close> in the body writes the
  new family into the person found and saves the items as loaded.  Only the name, the
  preferences and the family of that person can differ afterwards.  An item that the
  cascade of a delete would select under the family of the lookup is not selected under
  a different new family; \<^verbatim>\<open>GET /api/admin/items\<close> for the new family lists no item of another
  family, and a delete of the person under the new family leaves every such item in the
  store.
\<close>

theorem update_person_family:
  assumes load: "loadData d = (data, d1)"
    and code: "param req ''code'' = Some (JStr code)" "code \<noteq> []"
    and fm: "first_match (person_matches code (lookup_family req)) (people data) k"
    and fam: "get (body req) ''family'' = Some (JStr f)"
  shows "\<exists>person'.
           update_person req d
             = (Response 200 (JObj [(''success'', JBool True), (''person'', JObj person')]),
                Some \<lparr>people = (people data)[k := person'], items = items data\<rparr>)
         \<and> get person' ''family'' = Some (JStr (new_family f))
         \<and> (\<forall>x. x \<notin> {''name'', ''preferences'', ''family''} \<longrightarrow> get person' x = get (people data ! k) x)
         \<and> (\<forall>it\<in>set (items data). cascades code (lookup_family req) it \<longrightarrow>
               new_family f \<noteq> lookup_family req \<longrightarrow> \<not> cascades code (new_family f) it)
         \<and> (\<forall>req2 it. delete_family req2 = new_family f \<longrightarrow>
               it \<in> set (items data) \<longrightarrow> family_of it \<noteq> new_family f \<longrightarrow>
               it \<notin> set (fst (admin_items req2
                                 (Some \<lparr>people = (people data)[k := person'], items = items data\<rparr>))))
         \<and> (\<forall>req2 it. param req2 ''code'' = Some (JStr code) \<longrightarrow> delete_family req2 = new_family f \<longrightarrow>
               it \<in> set (items data) \<longrightarrow> family_of it \<noteq> new_family f \<longrightarrow>
               (\<exists>s2. snd (delete_person req2 (Some \<lparr>people = (people data)[k := person'], items = items data\<rparr>))
                       = Some s2 \<and> it \<in> set (items s2)))"
proof -
  let ?lf = "js_or (qparam req ''family'') (js_or (get (body req) ''family'') default_family)"
  from fm have fi: "findIndex (person_matches code (lookup_family req)) (people data) = Some k"
    by (simp add: findIndex_Some_iff)
  from person_update_shape [OF code fam, of ?lf "people data ! k"]
  obtain person' where ed: "edit_person (body req) ?lf (people data ! k) = Some person'"
    and fam': "get person' ''family'' = Some (JStr (new_family f))"
    and oth: "\<forall>x. x \<notin> {''name'', ''preferences'', ''family''} \<longrightarrow> get person' x = get (people data ! k) x"
    by (auto simp: get_put)
  let ?s' = "\<lparr>people = (people data)[k := person'], items = items data\<rparr>"
  have res: "update_person req d
             = (Response 200 (JObj [(''success'', JBool True), (''person'', JObj person')]), Some ?s')"
    by (simp add: update_person_unfold [OF load code] fi ed)
  have pair: "\<forall>it\<in>set (items data). cascades code (lookup_family req) it \<longrightarrow>
               new_family f \<noteq> lookup_family req \<longrightarrow> \<not> cascades code (new_family f) it"
    by (auto simp: cascades_def)
  from loadData_normalized [OF load] have nd: "normalized data" .
  have "truthy (get person' ''family'')"
    by (simp add: fam' new_family_nonempty)
  with nd have "normalized ?s'"
    by (auto simp: normalized_def dest!: set_update_subset_insert [THEN subsetD])
  then have l2: "loadData (Some ?s') = (?s', Some ?s')" by (rule loadData_fix)
  have lst: "it \<notin> set (fst (admin_items req2 (Some ?s')))"
    if f2: "delete_family req2 = new_family f" and nf: "family_of it \<noteq> new_family f" for req2 it
    using that by (simp add: admin_items_unfold [OF l2] delete_family_def)
  have del: "\<exists>s2. snd (delete_person req2 (Some ?s')) = Some s2 \<and> it \<in> set (items s2)"
    if c2: "param req2 ''code'' = Some (JStr code)" and f2: "delete_family req2 = new_family f"
      and it: "it \<in> set (items data)" and nf: "family_of it \<noteq> new_family f" for req2 it
  proof (cases "findIndex (person_matches code (delete_family req2)) (people ?s')")
    case None
    then show ?thesis using it
      by (simp add: delete_person_unfold [OF l2 c2 code(2)])
  next
    case (Some idx)
    then show ?thesis using it nf f2
      by (simp add: delete_person_unfold [OF l2 c2 code(2)] cascades_def)
  qed
  show ?thesis
  proof (intro exI [of _ person'] conjI)
    show "\<forall>req2 it. delete_family req2 = new_family f \<longrightarrow>
               it \<in> set (items data) \<longrightarrow> family_of it \<noteq> new_family f \<longrightarrow>
               it \<notin> set (fst (admin_items req2 (Some ?s')))"
      using lst by simp
    show "\<forall>req2 it. param req2 ''code'' = Some (JStr code) \<longrightarrow> delete_family req2 = new_family f \<longrightarrow>
               it \<in> set (items data) \<longrightarrow> family_of it \<noteq> new_family f \<longrightarrow>
               (\<exists>s2. snd (delete_person req2 (Some ?s')) = Some s2 \<and> it \<in> set (items s2))"
      using del by simp
  qed (rule res fam' oth pair)+
qed

text \<open>
  C9 on the store with two families: \<^verbatim>\<open>LAUREN\<close> of \<^verbatim>\<open>Rigsby\<close> moves to \<^verbatim>\<open>Jones\<close>, her item
  keeps the family \<^verbatim>\<open>Rigsby\<close> and survives a delete of \<^verbatim>\<open>LAUREN\<close> in \<^verbatim>\<open>Jones\<close>.
\<close>

theorem update_person_family_witness:
  "update_person move_req (Some two_families)
     = (Response 200 (JObj [(''success'', JBool True),
          (''person'', JObj [(''code'', JStr ''LAUREN''), (''family'', JStr ''Jones'')])]),
        Some moved_families)
   \<and> (\<exists>s2. snd (delete_person (delete_req ''LAUREN'' ''Jones'') (Some moved_families)) = Some s2
           \<and> [(''id'', JNum 1), (''recipientCode'', JStr ''LAUREN''), (''details'', JStr ''''),
               (''tags'', JArr []), (''claimedByCode'', JNull), (''family'', JStr ''Rigsby'')]
              \<in> set (items s2))"
proof -
  let ?it = "[(''id'', JNum 1), (''recipientCode'', JStr ''LAUREN''), (''details'', JStr ''''),
               (''tags'', JArr []), (''claimedByCode'', JNull), (''family'', JStr ''Rigsby'')]"
  have c: "param move_req ''code'' = Some (JStr ''LAUREN'')" "''LAUREN'' \<noteq> []"
    by (simp_all add: param_def move_req_def)
  have fm: "first_match (person_matches ''LAUREN'' (lookup_family move_req)) (people two_families) 0"
    unfolding first_match_def by code_simp
  have fam: "get (body move_req) ''family'' = Some (JStr '' Jones '')"
    by (simp add: move_req_def get_def)
  have nf: "new_family '' Jones '' = ''Jones''"
    by code_simp
  have e: "update_person move_req (Some two_families)
     = (Response 200 (JObj [(''success'', JBool True),
          (''person'', JObj [(''code'', JStr ''LAUREN''), (''family'', JStr ''Jones'')])]),
        Some moved_families)"
    by code_simp
  have c2: "param (delete_req ''LAUREN'' ''Jones'') ''code'' = Some (JStr ''LAUREN'')"
    by (simp add: param_def delete_req_def)
  have f2: "delete_family (delete_req ''LAUREN'' ''Jones'') = ''Jones''"
    by code_simp
  have i2: "?it \<in> set (items two_families)"
    by (simp add: two_families_def)
  have g2: "family_of ?it \<noteq> ''Jones''"
    by code_simp
  from update_person_family [OF load_two_families c fm fam]
  obtain person' where
    r: "update_person move_req (Some two_families)
             = (Response 200 (JObj [(''success'', JBool True), (''person'', JObj person')]),
                Some \<lparr>people = (people two_families)[0 := person'], items = items two_families\<rparr>)"
    and del: "\<forall>req2 it. param req2 ''code'' = Some (JStr ''LAUREN'') \<longrightarrow>
               delete_family req2 = new_family '' Jones '' \<longrightarrow>
               it \<in> set (items two_families) \<longrightarrow> family_of it \<noteq> new_family '' Jones '' \<longrightarrow>
               (\<exists>s2. snd (delete_person req2
                        (Some \<lparr>people = (people two_families)[0 := person'], items = items two_families\<rparr>))
                       = Some s2 \<and> it \<in> set (items s2))"
    by blast
  from r e have "\<lparr>people = (people two_families)[0 := person'], items = items two_families\<rparr> = moved_families"
    by simp
  with del c2 f2 i2 g2 nf
  have "\<exists>s2. snd (delete_person (delete_req ''LAUREN'' ''Jones'') (Some moved_families)) = Some s2
           \<and> ?it \<in> set (items s2)"
    by metis
  with e show ?thesis by simp
qed

section \<open>Sequences of operations: what one operation writes\<close>

lemma disk_items_loadData: "loadData d = (data, d1) \<Longrightarrow> disk_items d1 = disk_items d"
  by (auto simp: loadData_def disk_items_def initial_def split: option.splits)

lemma findIndex_less: "findIndex p xs = Some k \<Longrightarrow> k < length xs"
  by (simp add: findIndex_Some_iff first_match_def)

lemma disk_items_Some: "disk_items (Some s) = items s"
  by (simp add: disk_items_def)

lemma handle_shape:
  assumes load: "loadData d = (data, d1)"
  shows "step_shape x (disk_items d) (items data) (disk_items (snd (handle x d)))"
proof (cases x)
  case (Claim req)
  show ?thesis
    unfolding Claim handle.simps claim_unfold [OF load]
    by (auto simp: step_shape_def disk_items_loadData [OF load] disk_items_Some
        dest: findIndex_less split: option.splits)
next
  case (Unclaim req)
  have "put ''claimedByCode'' JNull it = put_val ''claimedByCode'' (Some JNull) it" for it
    by (simp add: put_val_def)
  then show ?thesis
    unfolding Unclaim handle.simps unclaim_unfold [OF load]
    by (auto simp: step_shape_def disk_items_loadData [OF load] disk_items_Some
        dest: findIndex_less split: option.splits)
next
  case (UploadCsv req)
  show ?thesis
    unfolding UploadCsv handle.simps
    by (auto simp: upload_csv_text_def load Let_def step_shape_def disk_items_Some saveData_def
        csv_records_def split: option.splits json.splits)
next
  case (UpdateItem req)
  show ?thesis
    unfolding UpdateItem handle.simps
    by (auto simp: update_item_def load Let_def step_shape_def disk_items_loadData [OF load]
        disk_items_Some saveData_def dest: findIndex_less split: option.splits)
next
  case (CreatePerson req)
  show ?thesis
    unfolding CreatePerson handle.simps
    by (auto simp: create_person_def load Let_def step_shape_def disk_items_loadData [OF load]
        disk_items_Some saveData_def split: option.splits)
next
  case (UpdatePerson req)
  show ?thesis
    unfolding UpdatePerson handle.simps
    by (auto simp: update_person_def load Let_def step_shape_def disk_items_loadData [OF load]
        disk_items_Some saveData_def split: option.splits)
next
  case (DeletePerson req)
  show ?thesis
    unfolding DeletePerson handle.simps
    by (auto simp: delete_person_def load Let_def step_shape_def disk_items_loadData [OF load]
        disk_items_Some saveData_def split: option.splits)
qed

lemma get_put_val: "get (put_val k v ob) k' = (if k' = k then v else get ob k')"
  by (cases v) (simp_all add: put_val_def get_put, simp add: get_def delete_conv')

lemma map_list_update_same: "k < length xs \<Longrightarrow> f y = f (xs ! k) \<Longrightarrow> map f (xs[k := y]) = map f xs"
  by (simp add: map_update list_update_same_conv)

lemma set_string_other: "k' \<noteq> k \<Longrightarrow> get (set_string b k item) k' = get item k'"
  by (simp add: set_string_def get_put)

lemma set_notes_other: "k' \<noteq> ''details'' \<Longrightarrow> get (set_notes b item) k' = get item k'"
  by (simp add: set_notes_def get_put)

lemma set_claimedByCode_other:
  "k' \<noteq> ''claimedByCode'' \<Longrightarrow> get (set_claimedByCode b item) k' = get item k'"
  by (simp add: set_claimedByCode_def get_put_val)

lemma set_tags_other: "k' \<noteq> ''tags'' \<Longrightarrow> get (set_tags b item) k' = get item k'"
  by (simp add: set_tags_def get_put split: option.splits json.splits)

lemma sync_notes_other: "k' \<noteq> ''notes'' \<Longrightarrow> get (sync_notes item) k' = get item k'"
  by (simp add: sync_notes_def get_put_val)

lemma sync_tag_other: "sync_tag item = Some item' \<Longrightarrow> k' \<noteq> ''tag'' \<Longrightarrow> get item' k' = get item k'"
  by (auto simp: sync_tag_def get_put_val split: option.splits json.splits if_splits)

lemma keep_family_other: "k' \<noteq> ''family'' \<Longrightarrow> get (keep_family fam item) k' = get item k'"
  by (simp add: keep_family_def get_put_val)

lemmas edit_steps_other = set_string_other set_notes_other set_claimedByCode_other set_tags_other
  sync_notes_other keep_family_other

lemma csv_items_length: "length (csv_items fam m rs) = length rs"
  by (induction rs arbitrary: m) (simp_all add: split_beta)

lemma parseCsvText_empty: "parseCsvText [] = []"
  by (simp add: parseCsvText_def normalize_newlines_def)

lemma upload_saves:
  assumes load: "loadData d = (data, d1)" and rs: "csv_records req \<noteq> []"
  shows "snd (upload_csv_text req d)
       = Some (data\<lparr>items := items data
                 @ csv_items (get (body req) ''family'') (maxId_of (items data)) (csv_records req)\<rparr>)"
  using rs
  by (auto simp: upload_csv_text_def csv_records_def load Let_def saveData_def parseCsvText_empty
      split: option.splits json.splits)

section \<open>Sequences of operations: the ids\<close>

lemma radix_NaN: "\<not> radix_numeric r ds \<Longrightarrow> radix_val r ds = None"
  by (auto simp: radix_numeric_def radix_val_def)

lemma unsigned_NaN: "\<not> unsigned_numeric s \<Longrightarrow> unsigned_val s = None"
  by (cases "decimal_val s") (simp_all add: unsigned_numeric_def unsigned_val_def)

lemma not_numeric_NaN:
  assumes n: "\<not> numeric s"
  shows "StringToNumber s = None"
proof (cases "trim s")
  case Nil
  with n show ?thesis by (simp add: numeric_def)
next
  case (Cons c cs)
  with n show ?thesis
    unfolding numeric_def StringToNumber_def Let_def
    by (auto simp: radix_NaN unsigned_NaN split: if_split_asm)
qed

lemma no_id_falsy: "\<not> supplies_id r \<Longrightarrow>
    \<not> num_truthy (Number (js_or (get r ''itemid'') (js_or (get r ''id'') empty_str)))"
  by (auto simp: supplies_id_def num_truthy_def Number_def dest: not_numeric_NaN
      split: option.splits json.splits)

lemma fold_max_mono:
  "m \<le> fold (\<lambda>it m. max (max m (f it)) (g it)) its (m::int)"
proof (induction its arbitrary: m)
  case Nil
  then show ?case by simp
next
  case (Cons a its)
  have "m \<le> max (max m (f a)) (g a)" by simp
  also have "\<dots> \<le> fold (\<lambda>it m. max (max m (f it)) (g it)) its (max (max m (f a)) (g a))"
    by (rule Cons.IH)
  finally show ?case by simp
qed

lemma fold_max_elem:
  "it \<in> set its \<Longrightarrow> max (f it) (g it) \<le> fold (\<lambda>it m. max (max m (f it)) (g it)) its (m::int)"
proof (induction its arbitrary: m)
  case Nil
  then show ?case by simp
next
  case (Cons a its)
  show ?case
  proof (cases "it = a")
    case True
    have "max (f a) (g a) \<le> max (max m (f a)) (g a)" by simp
    also have "\<dots> \<le> fold (\<lambda>it m. max (max m (f it)) (g it)) its (max (max m (f a)) (g a))"
      by (rule fold_max_mono)
    finally show ?thesis using True by simp
  next
    case False
    with Cons.prems have "it \<in> set its" by simp
    from Cons.IH [OF this] show ?thesis by simp
  qed
qed

lemma fold_max_le:
  "\<forall>it\<in>set its. f it \<le> B \<and> g it \<le> B \<Longrightarrow> m \<le> B \<Longrightarrow>
   fold (\<lambda>it m. max (max m (f it)) (g it)) its (m::int) \<le> B"
  by (induction its arbitrary: m) simp_all

lemma key_le_maxId: "it \<in> set its \<Longrightarrow> key_le (maxId_of its) it"
  using fold_max_elem [of it its "\<lambda>it. num_or0 (Number (get it ''id''))"
      "\<lambda>it. num_or0 (Number (get it ''itemId''))" 0]
  by (simp add: maxId_of_def key_le_def)

lemma maxId_le: "\<forall>it\<in>set its. key_le B it \<Longrightarrow> 0 \<le> B \<Longrightarrow> maxId_of its \<le> B"
  unfolding maxId_of_def key_le_def by (rule fold_max_le)

lemma key_le_mono: "key_le B it \<Longrightarrow> B \<le> C \<Longrightarrow> key_le C it"
  by (simp add: key_le_def)

lemma key_le_cong:
  "get it' ''id'' = get it ''id'' \<Longrightarrow> get it' ''itemId'' = get it ''itemId'' \<Longrightarrow>
   key_le B it' = key_le B it"
  by (simp add: key_le_def)

lemma own_id_shape:
  "id_shape it \<Longrightarrow> truthy (own_id it) \<Longrightarrow> \<exists>n. own_id it = Some (JNum n) \<and> n \<noteq> 0"
  by (auto simp: id_shape_def own_id_def js_or_def num_field_def split: option.splits json.splits)

lemma own_id_le:
  "id_shape it \<Longrightarrow> key_le B it \<Longrightarrow> own_id it = Some (JNum n) \<Longrightarrow> n \<le> B"
  by (auto simp: id_shape_def own_id_def js_or_def num_field_def key_le_def Number_def num_or0_def
      split: option.splits json.splits if_splits)

lemma own_id_truthy:
  "truthy (own_id it) = (truthy (get it ''id'') \<or> truthy (get it ''itemId''))"
  by (simp add: own_id_def js_or_def)

lemma own_id_id: "truthy (get it ''id'') \<Longrightarrow> own_id it = get it ''id''"
  by (simp add: own_id_def js_or_def)

lemma ensure_id_own:
  assumes "id_shape it" and "key_le m it" and "truthy (own_id it)"
  shows "fst (ensure_id m it) = m \<and> get (snd (ensure_id m it)) ''id'' = own_id it"
proof (cases "truthy (get it ''id'')")
  case True
  then show ?thesis by (simp add: ensure_id_def own_id_id)
next
  case False
  with assms(3) have t: "truthy (get it ''itemId'')" by (simp add: own_id_truthy)
  with assms(1) obtain n where n: "get it ''itemId'' = Some (JNum n)" "n \<noteq> 0"
    by (auto simp: id_shape_def num_field_def split: option.splits json.splits)
  with assms(2) have "n \<le> m" by (simp add: key_le_def Number_def num_or0_def)
  with False n show ?thesis
    by (simp add: ensure_id_def own_id_def js_or_def Number_def get_put)
qed

lemma ensure_id_fresh:
  assumes "id_shape it" and "\<not> truthy (own_id it)" and "0 \<le> m" and "m + 1 \<le> 2 ^ 53"
  shows "fst (ensure_id m it) = m + 1 \<and> get (snd (ensure_id m it)) ''id'' = Some (JNum (m + 1))"
proof -
  from assms(3,4) have d: "dbl (m + 1) = m + 1" by (intro dbl_exact) simp
  from assms(2) have f: "\<not> truthy (get it ''id'')" "\<not> truthy (get it ''itemId'')"
    by (simp_all add: own_id_truthy)
  with assms(1) have "get it ''itemId'' = None \<or> get it ''itemId'' = Some (JNum 0)"
    by (auto simp: id_shape_def num_field_def split: option.splits json.splits)
  with f d show ?thesis
    by (auto simp: ensure_id_def Number_def get_put)
qed

lemma normalize_item_get:
  "get (snd (normalize_item m it)) ''id'' = get (snd (ensure_id m it)) ''id''
   \<and> get (snd (normalize_item m it)) ''itemId'' = get it ''itemId''
   \<and> fst (normalize_item m it) = fst (ensure_id m it)"
  by (simp add: normalize_item_def split_beta ensure_family_other ensure_claimedByCode_other
      ensure_tags_other ensure_details_other ensure_id_other)

lemma normalize_items_itemId:
  "map (\<lambda>it. get it ''itemId'') (normalize_items m its) = map (\<lambda>it. get it ''itemId'') its"
  by (induction its arbitrary: m) (simp_all add: split_beta normalize_item_get)

lemma normalize_items_length: "length (normalize_items m its) = length its"
  by (induction its arbitrary: m) (simp_all add: split_beta)

lemma normalize_items_backfill:
  assumes "\<forall>it\<in>set its. id_shape it \<and> key_le m it" and "0 \<le> m" and "m + int (pending its) \<le> 2 ^ 53"
  shows "map (\<lambda>it. get it ''id'') (normalize_items m its) = backfill m its"
  using assms
proof (induction its arbitrary: m)
  case Nil
  then show ?case by simp
next
  case (Cons a its)
  from Cons.prems(1) have a: "id_shape a" "key_le m a"
    and its: "\<forall>it\<in>set its. id_shape it \<and> key_le m it" by simp_all
  show ?case
  proof (cases "truthy (own_id a)")
    case True
    from Cons.prems(3) True have "m + int (pending its) \<le> 2 ^ 53" by (simp add: pending_def)
    from Cons.IH [OF its Cons.prems(2) this] ensure_id_own [OF a True] True
    show ?thesis by (simp add: split_beta normalize_item_get)
  next
    case False
    from Cons.prems(3) False have b: "m + 1 + int (pending its) \<le> 2 ^ 53" by (simp add: pending_def)
    then have m1: "m + 1 \<le> 2 ^ 53" by linarith
    from its have its': "\<forall>it\<in>set its. id_shape it \<and> key_le (m + 1) it"
      by (auto intro: key_le_mono)
    from Cons.prems(2) have "0 \<le> m + 1" by simp
    from Cons.IH [OF its' this b] ensure_id_fresh [OF a(1) False Cons.prems(2) m1] False
    show ?thesis by (simp add: split_beta normalize_item_get)
  qed
qed

lemma backfill_range:
  "\<forall>it\<in>set its. id_shape it \<Longrightarrow> v \<in> set (backfill m its) \<Longrightarrow>
   (\<exists>it\<in>set its. truthy (own_id it) \<and> v = own_id it)
   \<or> (\<exists>k. v = Some (JNum k) \<and> m < k \<and> k \<le> m + int (pending its))"
proof (induction its arbitrary: m)
  case Nil
  then show ?case by simp
next
  case (Cons a its)
  from Cons.prems(1) have its: "\<forall>it\<in>set its. id_shape it" by simp
  show ?case
  proof (cases "truthy (own_id a)")
    case True
    with Cons.prems(2) have "v = own_id a \<or> v \<in> set (backfill m its)" by simp
    then show ?thesis
    proof
      assume "v = own_id a"
      with True show ?thesis by simp
    next
      assume "v \<in> set (backfill m its)"
      from Cons.IH [OF its this] True show ?thesis by (auto simp: pending_def)
    qed
  next
    case False
    with Cons.prems(2) have "v = Some (JNum (m + 1)) \<or> v \<in> set (backfill (m + 1) its)" by simp
    then show ?thesis
    proof
      assume "v = Some (JNum (m + 1))"
      with False show ?thesis by (simp add: pending_def)
    next
      assume "v \<in> set (backfill (m + 1) its)"
      from Cons.IH [OF its this] False show ?thesis by (auto simp: pending_def)
    qed
  qed
qed

lemma backfill_distinct:
  assumes "\<forall>it\<in>set its. id_shape it \<and> key_le m it"
    and "distinct (map own_id (filter (\<lambda>it. truthy (own_id it)) its))"
  shows "distinct (backfill m its)"
  using assms
proof (induction its arbitrary: m)
  case Nil
  then show ?case by simp
next
  case (Cons a its)
  from Cons.prems(1) have a: "id_shape a" "key_le m a"
    and its: "\<forall>it\<in>set its. id_shape it \<and> key_le m it" by simp_all
  then have sh: "\<forall>it\<in>set its. id_shape it" by simp
  show ?case
  proof (cases "truthy (own_id a)")
    case True
    with Cons.prems(2) have d: "distinct (map own_id (filter (\<lambda>it. truthy (own_id it)) its))"
      and n: "own_id a \<notin> own_id ` {it \<in> set its. truthy (own_id it)}" by simp_all
    obtain n where own: "own_id a = Some (JNum n)" using own_id_shape [OF a(1) True] by blast
    have "own_id a \<notin> set (backfill m its)"
    proof
      assume "own_id a \<in> set (backfill m its)"
      from backfill_range [OF sh this] show False
      proof
        assume "\<exists>it\<in>set its. truthy (own_id it) \<and> own_id a = own_id it"
        with n show False by auto
      next
        assume "\<exists>k. own_id a = Some (JNum k) \<and> m < k \<and> k \<le> m + int (pending its)"
        with own have "m < n" by simp
        with own_id_le [OF a own] show False by simp
      qed
    qed
    with Cons.IH [OF its d] True show ?thesis by simp
  next
    case False
    with Cons.prems(2) have d: "distinct (map own_id (filter (\<lambda>it. truthy (own_id it)) its))"
      by simp
    from its have its': "\<forall>it\<in>set its. id_shape it \<and> key_le (m + 1) it"
      by (auto intro: key_le_mono)
    have "Some (JNum (m + 1)) \<notin> set (backfill (m + 1) its)"
    proof
      assume "Some (JNum (m + 1)) \<in> set (backfill (m + 1) its)"
      from backfill_range [OF sh this] show False
      proof
        assume "\<exists>it\<in>set its. truthy (own_id it) \<and> Some (JNum (m + 1)) = own_id it"
        then obtain it where it: "it \<in> set its" "own_id it = Some (JNum (m + 1))" by auto
        with its have "id_shape it" "key_le m it" by simp_all
        from own_id_le [OF this it(2)] show False by simp
      next
        assume "\<exists>k. Some (JNum (m + 1)) = Some (JNum k) \<and> m + 1 < k \<and> k \<le> m + 1 + int (pending its)"
        then show False by auto
      qed
    qed
    with Cons.IH [OF its' d] False show ?thesis by simp
  qed
qed

lemma assigned_own: "ids_assigned its \<Longrightarrow> filter (\<lambda>it. truthy (own_id it)) its = its"
  by (simp add: ids_assigned_def own_id_truthy)

lemma assigned_own_ids: "ids_assigned its \<Longrightarrow> map own_id its = map (\<lambda>it. get it ''id'') its"
  by (simp add: ids_assigned_def own_id_id)

lemma assigned_unique:
  assumes "ids_assigned its"
  shows "ids_unique its"
proof -
  from assms have "distinct (map own_id its)"
    unfolding assigned_own_ids [OF assms] by (simp add: ids_assigned_def)
  with assms show ?thesis
    by (simp add: ids_unique_def assigned_own [OF assms]) (simp add: ids_assigned_def)
qed

lemma assigned_pending: "ids_assigned its \<Longrightarrow> pending its = 0"
  by (simp add: pending_def ids_assigned_def own_id_truthy)

lemma assigned_room: "ids_assigned its \<Longrightarrow> maxId_of its + int b \<le> 2 ^ 53 \<Longrightarrow> ids_room b its"
  by (simp add: ids_room_def assigned_unique assigned_pending)

lemma id_shape_cong:
  "get it' ''id'' = get it ''id'' \<Longrightarrow> get it' ''itemId'' = get it ''itemId'' \<Longrightarrow>
   id_shape it' = id_shape it"
  by (simp add: id_shape_def)

lemma loaded_items:
  "items (fst (loadData d)) = normalize_items (maxId_of (disk_items d)) (disk_items d)"
  by (cases d) (simp_all add: loadData_def initial_def disk_items_def normalize_def)

lemma normalized_elem:
  assumes "it' \<in> set (normalize_items m its)"
  shows "get it' ''id'' \<in> set (map (\<lambda>it. get it ''id'') (normalize_items m its))
       \<and> (\<exists>it\<in>set its. get it' ''itemId'' = get it ''itemId'')"
proof -
  from assms have "get it' ''itemId'' \<in> set (map (\<lambda>it. get it ''itemId'') (normalize_items m its))"
    by simp
  then have "get it' ''itemId'' \<in> set (map (\<lambda>it. get it ''itemId'') its)"
    by (simp only: normalize_items_itemId)
  with assms show ?thesis by auto
qed

lemma load_room:
  assumes r: "ids_room b its"
  shows "ids_assigned (normalize_items (maxId_of its) its)
       \<and> maxId_of (normalize_items (maxId_of its) its) + int b \<le> 2 ^ 53"
proof -
  let ?M = "maxId_of its"
  let ?new = "normalize_items ?M its"
  from r have sh: "\<forall>it\<in>set its. id_shape it"
    and d: "distinct (map own_id (filter (\<lambda>it. truthy (own_id it)) its))"
    and b: "?M + int (pending its) + int b \<le> 2 ^ 53"
    by (simp_all add: ids_room_def ids_unique_def)
  have M: "0 \<le> ?M" by (rule maxId_of_nonneg)
  from sh have k: "\<forall>it\<in>set its. id_shape it \<and> key_le ?M it" by (simp add: key_le_maxId)
  from b have p: "?M + int (pending its) \<le> 2 ^ 53" by linarith
  have ids: "map (\<lambda>it. get it ''id'') ?new = backfill ?M its"
    by (rule normalize_items_backfill [OF k M p])
  have each: "id_shape it' \<and> truthy (get it' ''id'') \<and> key_le (?M + int (pending its)) it'"
    if "it' \<in> set ?new" for it'
  proof -
    from normalized_elem [OF that] obtain it where v: "get it' ''id'' \<in> set (backfill ?M its)"
      and it: "it \<in> set its" "get it' ''itemId'' = get it ''itemId''"
      unfolding ids by blast
    from it k have i: "num_field (get it' ''itemId'')"
      "num_or0 (Number (get it' ''itemId'')) \<le> ?M"
      by (simp_all add: id_shape_def key_le_def)
    from backfill_range [OF sh v]
    have "\<exists>n. get it' ''id'' = Some (JNum n) \<and> n \<noteq> 0 \<and> n \<le> ?M + int (pending its)"
    proof
      assume "\<exists>it\<in>set its. truthy (own_id it) \<and> get it' ''id'' = own_id it"
      then obtain a where a: "a \<in> set its" "truthy (own_id a)" "get it' ''id'' = own_id a" by blast
      with k have ka: "id_shape a" "key_le ?M a" by simp_all
      from own_id_shape [OF ka(1) a(2)] obtain n where n: "own_id a = Some (JNum n)" "n \<noteq> 0"
        by blast
      from own_id_le [OF ka n(1)] n a(3) show ?thesis by simp
    next
      assume "\<exists>k. get it' ''id'' = Some (JNum k) \<and> ?M < k \<and> k \<le> ?M + int (pending its)"
      with M show ?thesis by auto
    qed
    then obtain n where n: "get it' ''id'' = Some (JNum n)" "n \<noteq> 0" "n \<le> ?M + int (pending its)"
      by blast
    with i show ?thesis
      by (simp add: id_shape_def num_field_def key_le_def Number_def num_or0_def)
  qed
  have "distinct (map (\<lambda>it. get it ''id'') ?new)"
    unfolding ids by (rule backfill_distinct [OF k d])
  with each have a: "ids_assigned ?new" by (simp add: ids_assigned_def)
  from each M have "maxId_of ?new \<le> ?M + int (pending its)"
    by (intro maxId_le) simp_all
  with b a show ?thesis by simp
qed

lemma assigned_update:
  assumes a: "ids_assigned xs" and k: "k < length xs"
    and i: "get y ''id'' = get (xs ! k) ''id''" and j: "get y ''itemId'' = get (xs ! k) ''itemId''"
  shows "ids_assigned (xs[k := y]) \<and> maxId_of (xs[k := y]) \<le> maxId_of xs"
proof -
  have m: "map (\<lambda>it. get it ''id'') (xs[k := y]) = map (\<lambda>it. get it ''id'') xs"
    using k i by (simp add: map_list_update_same)
  from k have xk: "xs ! k \<in> set xs" by simp
  have each: "id_shape it \<and> truthy (get it ''id'') \<and> key_le (maxId_of xs) it"
    if "it \<in> set (xs[k := y])" for it
  proof -
    from that set_update_subset_insert [of xs k y] have "it = y \<or> it \<in> set xs" by auto
    then show ?thesis
    proof
      assume "it = y"
      with a xk i j key_le_maxId [OF xk] show ?thesis
        by (simp add: ids_assigned_def id_shape_cong [OF i j] key_le_cong [OF i j])
    next
      assume "it \<in> set xs"
      with a key_le_maxId [of it xs] show ?thesis by (simp add: ids_assigned_def)
    qed
  qed
  from a have "distinct (map (\<lambda>it. get it ''id'') (xs[k := y]))"
    unfolding m by (simp add: ids_assigned_def)
  with each have "ids_assigned (xs[k := y])" by (simp add: ids_assigned_def)
  moreover from each have "maxId_of (xs[k := y]) \<le> maxId_of xs"
    by (intro maxId_le maxId_of_nonneg) simp
  ultimately show ?thesis ..
qed

lemma assigned_filter:
  assumes a: "ids_assigned xs"
  shows "ids_assigned (filter p xs) \<and> maxId_of (filter p xs) \<le> maxId_of xs"
proof -
  from a have "ids_assigned (filter p xs)"
    by (auto simp: ids_assigned_def distinct_map_filter)
  moreover have "maxId_of (filter p xs) \<le> maxId_of xs"
    by (intro maxId_le maxId_of_nonneg) (simp add: key_le_maxId)
  ultimately show ?thesis ..
qed

lemma edit_item_id: "edit_item b fam it = Some it' \<Longrightarrow> get it' ''id'' = get it ''id''"
  by (auto simp: edit_item_def Let_def edit_steps_other dest!: sync_tag_other [where k' = "''id''"])

lemma edit_item_itemId: "edit_item b fam it = Some it' \<Longrightarrow> get it' ''itemId'' = get it ''itemId''"
  by (auto simp: edit_item_def Let_def edit_steps_other dest!: sync_tag_other [where k' = "''itemId''"])

lemma csv_item_no_id:
  assumes "\<not> supplies_id r" and "0 \<le> m" and "m + 1 \<le> 2 ^ 53"
  shows "fst (csv_item fam m r) = m + 1
       \<and> get (snd (csv_item fam m r)) ''id'' = Some (JNum (m + 1))
       \<and> get (snd (csv_item fam m r)) ''itemId'' = Some (JNum (m + 1))"
proof -
  from assms(2,3) have d: "dbl (m + 1) = m + 1" by (intro dbl_exact) simp
  from no_id_falsy [OF assms(1)] d show ?thesis
    by (auto simp: csv_item_def Let_def num_truthy_def get_put get_put_val split: option.splits)
qed

lemma upt_shift:
  "map f [0 ..< Suc n] = f 0 # map (\<lambda>i. f (Suc i)) [0 ..< n]"
  by (simp add: upt_rec [of 0] map_Suc_upt [symmetric] del: upt_Suc)

lemma csv_items_ids:
  assumes "\<forall>r\<in>set rs. \<not> supplies_id r" and "0 \<le> m" and "m + int (length rs) \<le> 2 ^ 53"
  shows "map (\<lambda>it. get it ''id'') (csv_items fam m rs)
           = map (\<lambda>i. Some (JNum (m + 1 + int i))) [0 ..< length rs]
       \<and> map (\<lambda>it. get it ''itemId'') (csv_items fam m rs)
           = map (\<lambda>i. Some (JNum (m + 1 + int i))) [0 ..< length rs]"
  using assms
proof (induction rs arbitrary: m)
  case Nil
  then show ?case by simp
next
  case (Cons r rs)
  from Cons.prems have r: "\<not> supplies_id r" and rs: "\<forall>r\<in>set rs. \<not> supplies_id r"
    and m1: "m + 1 \<le> 2 ^ 53" "0 \<le> m + 1" "m + 1 + int (length rs) \<le> 2 ^ 53" by simp_all
  have "map (\<lambda>i. Some (JNum (m + 1 + int i))) [0 ..< length (r # rs)]
      = Some (JNum (m + 1)) # map (\<lambda>i. Some (JNum (m + 1 + 1 + int i))) [0 ..< length rs]"
    by (simp add: upt_shift del: upt_Suc)
  with Cons.IH [OF rs m1(2,3)] csv_item_no_id [OF r Cons.prems(2) m1(1), of fam] show ?case
    by (simp add: split_beta)
qed

lemma assigned_csv:
  assumes a: "ids_assigned xs" and rs: "\<forall>r\<in>set rs. \<not> supplies_id r"
    and b: "maxId_of xs + int (length rs) \<le> 2 ^ 53"
  shows "ids_assigned (xs @ csv_items fam (maxId_of xs) rs)
       \<and> maxId_of (xs @ csv_items fam (maxId_of xs) rs) \<le> maxId_of xs + int (length rs)"
proof -
  let ?m = "maxId_of xs"
  let ?new = "csv_items fam ?m rs"
  let ?ids = "map (\<lambda>i. Some (JNum (?m + 1 + int i))) [0 ..< length rs]"
  have M: "0 \<le> ?m" by (rule maxId_of_nonneg)
  from csv_items_ids [OF rs M b]
  have ids: "map (\<lambda>it. get it ''id'') ?new = ?ids" and iids: "map (\<lambda>it. get it ''itemId'') ?new = ?ids"
    by simp_all
  have inj: "inj_on (\<lambda>i. Some (JNum (?m + 1 + int i))) (set [0 ..< length rs])"
    by (rule inj_onI) simp
  have d: "distinct (map (\<lambda>it. get it ''id'') ?new)"
    unfolding ids using inj by (simp add: distinct_map)
  have new: "\<exists>i j. i < length rs \<and> j < length rs \<and> get it ''id'' = Some (JNum (?m + 1 + int i))
                \<and> get it ''itemId'' = Some (JNum (?m + 1 + int j))"
    if "it \<in> set ?new" for it
  proof -
    from that have "get it ''id'' \<in> set (map (\<lambda>it. get it ''id'') ?new)"
      and "get it ''itemId'' \<in> set (map (\<lambda>it. get it ''itemId'') ?new)" by simp_all
    then show ?thesis unfolding ids iids by auto
  qed
  have t: "id_shape it \<and> truthy (get it ''id'') \<and> key_le (?m + int (length rs)) it"
    if "it \<in> set ?new" for it
    using new [OF that] M
    by (auto simp: id_shape_def num_field_def key_le_def Number_def num_or0_def)
  have old: "key_le (?m + int (length rs)) it" if "it \<in> set xs" for it
    using key_le_maxId [OF that] by (rule key_le_mono) simp
  have disj: "set (map (\<lambda>it. get it ''id'') xs) \<inter> set (map (\<lambda>it. get it ''id'') ?new) = {}"
  proof (rule ccontr)
    assume "\<not> ?thesis"
    then obtain v where x: "v \<in> set (map (\<lambda>it. get it ''id'') xs)"
      and y: "v \<in> set (map (\<lambda>it. get it ''id'') ?new)" by auto
    from y obtain i where v: "v = Some (JNum (?m + 1 + int i))" unfolding ids by auto
    from x obtain it where it: "it \<in> set xs" "get it ''id'' = v" by auto
    from key_le_maxId [OF it(1)] it(2) v have "?m + 1 + int i \<le> ?m"
      by (simp add: key_le_def Number_def num_or0_def)
    then show False by simp
  qed
  from a d t disj have "ids_assigned (xs @ ?new)" by (auto simp: ids_assigned_def)
  moreover from t old M have "maxId_of (xs @ ?new) \<le> ?m + int (length rs)"
    by (intro maxId_le) auto
  ultimately show ?thesis ..
qed

lemma room_less: "ids_room (a + b) its \<Longrightarrow> ids_room b its"
  by (simp add: ids_room_def)

lemma step_room:
  assumes r: "ids_room (rows x + b) (disk_items d)" and g: "generates_ids x"
  shows "ids_room b (disk_items (snd (handle x d)))"
proof -
  obtain data d1 where load: "loadData d = (data, d1)" by (cases "loadData d")
  with loaded_items [of d]
  have "items data = normalize_items (maxId_of (disk_items d)) (disk_items d)" by simp
  with load_room [OF r] have a: "ids_assigned (items data)"
    and m: "maxId_of (items data) + int (rows x + b) \<le> 2 ^ 53" by simp_all
  from m have mb: "maxId_of (items data) + int b \<le> 2 ^ 53" by simp
  from handle_shape [OF load, of x]
  consider "disk_items (snd (handle x d)) = disk_items d"
    | "disk_items (snd (handle x d)) = items data"
    | k v where "k < length (items data)"
        "disk_items (snd (handle x d)) = (items data)[k := put_val ''claimedByCode'' v (items data ! k)]"
    | k b fam item where "k < length (items data)" "edit_item b fam (items data ! k) = Some item"
        "disk_items (snd (handle x d)) = (items data)[k := item]"
    | p where "disk_items (snd (handle x d)) = filter p (items data)"
    | req where "x = UploadCsv req"
        "disk_items (snd (handle x d))
           = items data @ csv_items (get (body req) ''family'') (maxId_of (items data)) (csv_records req)"
    unfolding step_shape_def by blast
  then show ?thesis
  proof cases
    case 1
    with room_less [OF r] show ?thesis by simp
  next
    case 2
    with assigned_room [OF a mb] show ?thesis by simp
  next
    case 3
    from assigned_update [OF a 3(1), of "put_val ''claimedByCode'' v (items data ! k)"]
    have "ids_assigned ((items data)[k := put_val ''claimedByCode'' v (items data ! k)])"
      and "maxId_of ((items data)[k := put_val ''claimedByCode'' v (items data ! k)]) \<le> maxId_of (items data)"
      by (simp_all add: get_put_val)
    with mb 3(2) show ?thesis by (intro assigned_room) simp_all
  next
    case 4
    from assigned_update [OF a 4(1) edit_item_id [OF 4(2)] edit_item_itemId [OF 4(2)]]
    have "ids_assigned ((items data)[k := item])"
      and "maxId_of ((items data)[k := item]) \<le> maxId_of (items data)"
      by simp_all
    with mb 4(3) show ?thesis by (intro assigned_room) simp_all
  next
    case 5
    from assigned_filter [OF a, of p]
    have "ids_assigned (filter p (items data))"
      and "maxId_of (filter p (items data)) \<le> maxId_of (items data)"
      by simp_all
    with mb 5 show ?thesis by (intro assigned_room) simp_all
  next
    case 6
    let ?rs = "csv_records req"
    from 6(1) g have no: "\<forall>r\<in>set ?rs. \<not> supplies_id r" by (simp add: generates_ids_def)
    from 6(1) m have l: "maxId_of (items data) + int (length ?rs) + int b \<le> 2 ^ 53"
      by (simp add: rows_def)
    then have "maxId_of (items data) + int (length ?rs) \<le> 2 ^ 53" by simp
    from assigned_csv [OF a no this, of "get (body req) ''family''"] l 6(2)
    show ?thesis by (intro assigned_room) simp_all
  qed
qed

lemma run_room:
  "ids_room (sum_list (map rows ops) + b) (disk_items d) \<Longrightarrow> \<forall>x\<in>set ops. generates_ids x \<Longrightarrow>
   ids_room b (disk_items (run ops d))"
proof (induction ops arbitrary: d)
  case Nil
  then show ?case by simp
next
  case (Cons x ops)
  from Cons.prems(1) have "ids_room (rows x + (sum_list (map rows ops) + b)) (disk_items d)"
    by (simp add: add.assoc)
  with Cons.prems(2) have "ids_room (sum_list (map rows ops) + b) (disk_items (snd (handle x d)))"
    by (intro step_room) simp_all
  with Cons.prems(2) Cons.IH show ?case by simp
qed

text \<open>
  C3.  Take a file whose items have integer ids, no two the same own id
  (\<^verbatim>\<open>it.id || it.itemId\<close>), any sequence of claims, unclaims, CSV uploads, item updates and
  person operations in which no CSV record supplies a numeric id, and let the greatest id
  in the file plus the number of ids the sequence can ask for (one for each item without an
  own id, one for each CSV record) be at most \<open>2^53\<close>.  Then the own ids in the file are
  still unique after the sequence, and in the items that \<^verbatim>\<open>loadData\<close> then returns every
  item has an id other than \<open>0\<close> and no two items have the same, whatever their families.
  \<^verbatim>\<open>loadData\<close> keeps the own id of each item and gives the items without one the greatest
  id seen plus one, and a CSV upload with at least one record appends to the loaded items
  the ids that follow their greatest id, one by one.
\<close>

theorem ids_stay_unique:
  assumes u: "ids_unique (disk_items d)" and g: "\<forall>x\<in>set ops. generates_ids x"
    and b: "maxId_of (disk_items d) + ids_needed (disk_items d) ops \<le> 2 ^ 53"
  shows "ids_unique (disk_items (run ops d))
       \<and> ids_assigned (items (fst (loadData (run ops d))))
       \<and> item_ids (items (fst (loadData d))) = backfill (maxId_of (disk_items d)) (disk_items d)
       \<and> (\<forall>req ops'. ops = UploadCsv req # ops' \<longrightarrow> csv_records req \<noteq> [] \<longrightarrow>
             item_ids (disk_items (snd (upload_csv_text req d)))
               = item_ids (items (fst (loadData d)))
                 @ map (\<lambda>i. Some (JNum (maxId_of (items (fst (loadData d))) + 1 + int i)))
                     [0 ..< length (csv_records req)])"
proof -
  let ?n = "sum_list (map rows ops)"
  from u b have r: "ids_room (?n + 0) (disk_items d)" by (simp add: ids_room_def ids_needed_def)
  from run_room [OF r g] have r': "ids_room 0 (disk_items (run ops d))" .
  then have 1: "ids_unique (disk_items (run ops d))" by (simp add: ids_room_def)
  from load_room [OF r'] have 2: "ids_assigned (items (fst (loadData (run ops d))))"
    by (simp add: loaded_items)
  from u have k: "\<forall>it\<in>set (disk_items d). id_shape it \<and> key_le (maxId_of (disk_items d)) it"
    by (simp add: ids_unique_def key_le_maxId)
  from b have p: "maxId_of (disk_items d) + int (pending (disk_items d)) \<le> 2 ^ 53"
    by (simp add: ids_needed_def)
  have 3: "item_ids (items (fst (loadData d))) = backfill (maxId_of (disk_items d)) (disk_items d)"
    unfolding item_ids_def loaded_items
    by (rule normalize_items_backfill [OF k maxId_of_nonneg p])
  have 4: "item_ids (disk_items (snd (upload_csv_text req d)))
               = item_ids (items (fst (loadData d)))
                 @ map (\<lambda>i. Some (JNum (maxId_of (items (fst (loadData d))) + 1 + int i)))
                     [0 ..< length (csv_records req)]"
    if o: "ops = UploadCsv req # ops'" and rs: "csv_records req \<noteq> []" for req ops'
  proof -
    obtain data d1 where load: "loadData d = (data, d1)" by (cases "loadData d")
    from o g have no: "\<forall>r\<in>set (csv_records req). \<not> supplies_id r" by (simp add: generates_ids_def)
    from load_room [OF r] load have "maxId_of (items data) + int ?n \<le> 2 ^ 53"
      by (simp add: loaded_items [symmetric])
    with o have l: "maxId_of (items data) + int (length (csv_records req)) \<le> 2 ^ 53"
      by (simp add: rows_def)
    from csv_items_ids [OF no maxId_of_nonneg l, of "get (body req) ''family''"] load
    show ?thesis
      by (simp add: upload_saves [OF load rs] disk_items_Some item_ids_def)
  qed
  from 1 2 3 4 show ?thesis by blast
qed

text \<open>
  The theorem at the store \<open>legacy\<close>, whose greatest id is \<open>4\<close>: \<^verbatim>\<open>loadData\<close> keeps the id
  \<open>1\<close>, makes the \<^verbatim>\<open>itemId\<close> \<open>4\<close> an id and gives the third item the id \<open>5\<close>; an upload of
  two records appends the ids \<open>6\<close> and \<open>7\<close>; and after that upload, a claim and the delete
  of a person the ids are unique.
\<close>

theorem ids_stay_unique_witness:
  "ids_unique (disk_items (run [UploadCsv kite_ball, Claim (claim_req (JStr ''ANNA'') 4),
                                DeletePerson (delete_req ''LAUREN'' ''default'')] (Some legacy)))
   \<and> ids_assigned (items (fst (loadData (run [UploadCsv kite_ball, Claim (claim_req (JStr ''ANNA'') 4),
                                DeletePerson (delete_req ''LAUREN'' ''default'')] (Some legacy)))))
   \<and> item_ids (items (fst (loadData (Some legacy)))) = [Some (JNum 1), Some (JNum 4), Some (JNum 5)]
   \<and> item_ids (disk_items (snd (upload_csv_text kite_ball (Some legacy))))
       = [Some (JNum 1), Some (JNum 4), Some (JNum 5), Some (JNum 6), Some (JNum 7)]"
proof -
  let ?ops = "[UploadCsv kite_ball, Claim (claim_req (JStr ''ANNA'') 4),
               DeletePerson (delete_req ''LAUREN'' ''default'')]"
  have u: "ids_unique (disk_items (Some legacy))"
    by code_simp
  have g: "\<forall>x\<in>set ?ops. generates_ids x"
    by code_simp
  have b: "maxId_of (disk_items (Some legacy)) + ids_needed (disk_items (Some legacy)) ?ops \<le> 2 ^ 53"
    by code_simp
  have rs: "csv_records kite_ball \<noteq> []"
    by code_simp
  have m: "backfill (maxId_of (disk_items (Some legacy))) (disk_items (Some legacy))
             = [Some (JNum 1), Some (JNum 4), Some (JNum 5)]"
    "maxId_of (items (fst (loadData (Some legacy)))) = 5" "length (csv_records kite_ball) = 2"
    by code_simp+
  have upt: "[0 ..< 2] = [0, 1]"
    by code_simp
  from ids_stay_unique [OF u g b] rs
  have "ids_unique (disk_items (run ?ops (Some legacy)))"
    and "ids_assigned (items (fst (loadData (run ?ops (Some legacy)))))"
    and l: "item_ids (items (fst (loadData (Some legacy))))
          = backfill (maxId_of (disk_items (Some legacy))) (disk_items (Some legacy))"
    and "item_ids (disk_items (snd (upload_csv_text kite_ball (Some legacy))))
               = item_ids (items (fst (loadData (Some legacy))))
                 @ map (\<lambda>i. Some (JNum (maxId_of (items (fst (loadData (Some legacy)))) + 1 + int i)))
                     [0 ..< length (csv_records kite_ball)]"
    by blast+
  then show ?thesis by (simp add: m upt)
qed

text \<open>
  Three stores where one successful request leaves two items with the same id.  In the
  store \<open>shop\<close> the ids are unique; an upload whose record supplies the id \<^verbatim>\<open>1.0\<close> repeats
  the id \<open>1\<close> of the stored item.  In the store \<open>legacy_twin\<close> one item has an id; a claim
  saves what \<^verbatim>\<open>loadData\<close> returned, where the legacy item got its \<^verbatim>\<open>itemId\<close> \<open>5\<close> as id beside
  the item of id \<open>5\<close>.  In the store \<open>full\<close> the ids are unique and the greatest is \<open>2^53\<close>;
  an upload of a record without id gives the new item that same id, since \<open>2^53 + 1\<close> is
  not a double.
\<close>

theorem duplicate_id_counterexample:
  "ids_unique (disk_items (Some (shop JNull)))
   \<and> item_ids (disk_items (Some (shop JNull))) = [Some (JNum 1)]
   \<and> fst (upload_csv_text kite_1 (Some (shop JNull)))
       = Response 200 (JObj [(''success'', JBool True), (''added'', JNum 1)])
   \<and> item_ids (disk_items (snd (upload_csv_text kite_1 (Some (shop JNull)))))
       = [Some (JNum 1), Some (JNum 1)]
   \<and> item_ids (disk_items (Some legacy_twin)) = [Some (JNum 5), None]
   \<and> fst (claim (claim_req (JStr ''ANNA'') 5) (Some legacy_twin))
       = Response 200 (JObj [(''success'', JBool True)])
   \<and> item_ids (disk_items (snd (claim (claim_req (JStr ''ANNA'') 5) (Some legacy_twin))))
       = [Some (JNum 5), Some (JNum 5)]
   \<and> ids_unique (disk_items (Some full))
   \<and> generates_ids (UploadCsv kite)
   \<and> item_ids (disk_items (Some full)) = [Some (JNum (2 ^ 53))]
   \<and> fst (upload_csv_text kite (Some full))
       = Response 200 (JObj [(''success'', JBool True), (''added'', JNum 1)])
   \<and> item_ids (disk_items (snd (upload_csv_text kite (Some full))))
       = [Some (JNum (2 ^ 53)), Some (JNum (2 ^ 53))]"
  by code_simp

section \<open>Sequences of operations: the legacy fields\<close>

lemma syncedI:
  "get it ''details'' = Some v \<Longrightarrow> get it ''notes'' = Some v \<Longrightarrow> get it ''tags'' = Some (JArr xs) \<Longrightarrow>
   get it ''tag'' = Some (JStr (js_join ''/'' xs)) \<Longrightarrow> synced it"
  by (simp add: synced_def)

lemma syncedE:
  assumes "synced it"
  obtains v xs where "get it ''details'' = Some v" "get it ''notes'' = Some v"
    "get it ''tags'' = Some (JArr xs)" "get it ''tag'' = Some (JStr (js_join ''/'' xs))"
  using assms by (auto simp: synced_def split: option.splits json.splits)

lemma synced_cong:
  "get it' ''details'' = get it ''details'' \<Longrightarrow> get it' ''notes'' = get it ''notes'' \<Longrightarrow>
   get it' ''tags'' = get it ''tags'' \<Longrightarrow> get it' ''tag'' = get it ''tag'' \<Longrightarrow>
   synced it \<Longrightarrow> synced it'"
  by (auto simp: synced_def split: option.splits json.splits)

lemma normalize_item_synced: "synced it \<Longrightarrow> synced (snd (normalize_item m it))"
proof -
  assume s: "synced it"
  then obtain v xs where g: "get it ''details'' = Some v" "get it ''tags'' = Some (JArr xs)"
    by (rule syncedE)
  let ?it1 = "snd (ensure_id m it)"
  have 1: "ensure_details ?it1 = ?it1"
    by (simp add: ensure_details_def has_get ensure_id_other g)
  have 2: "ensure_tags ?it1 = ?it1"
    by (simp add: ensure_tags_def ensure_id_other g)
  have "get (snd (normalize_item m it)) k = get it k" if "k \<in> {''details'', ''notes'', ''tags'', ''tag''}" for k
    using that
    by (auto simp: normalize_item_def split_beta 1 2 ensure_family_other ensure_claimedByCode_other
        ensure_id_other)
  then show ?thesis using s by - (rule synced_cong [of _ it], simp_all)
qed

lemma normalize_items_synced: "all_synced its \<Longrightarrow> all_synced (normalize_items m its)"
  by (induction its arbitrary: m) (auto simp: all_synced_def split_beta normalize_item_synced)

lemma loaded_synced:
  assumes "loadData d = (data, d1)" and "all_synced (disk_items d)"
  shows "all_synced (items data)"
proof (cases d)
  case None
  with assms show ?thesis by (auto simp: loadData_def initial_def all_synced_def)
next
  case (Some s)
  with assms show ?thesis
    by (auto simp: loadData_def disk_items_def normalize_def intro: normalize_items_synced)
qed

lemma put_claimedByCode_synced: "synced it \<Longrightarrow> synced (put_val ''claimedByCode'' v it)"
  by (rule synced_cong [of _ it]) (simp_all add: get_put_val)

lemma sync_tag_array:
  "get item ''tags'' = Some (JArr xs) \<Longrightarrow>
   sync_tag item = Some (put ''tag'' (JStr (js_join ''/'' xs)) item)"
  by (simp add: sync_tag_def js_or_def empty_str_def put_val_def)

lemma set_tags_array: "get item ''tags'' = Some (JArr xs) \<Longrightarrow> \<exists>ys. get (set_tags b item) ''tags'' = Some (JArr ys)"
  by (auto simp: set_tags_def get_put split_tags_def split: option.splits json.splits)

lemma set_string_has: "has item k' \<Longrightarrow> has (set_string b k item) k'"
  by (simp add: set_string_def has_put)

lemma set_notes_has: "has item k' \<Longrightarrow> has (set_notes b item) k'"
  by (simp add: set_notes_def has_put)

lemma edit_item_synced:
  assumes d: "has it ''details''" and t: "get it ''tags'' = Some (JArr xs)"
  shows "\<exists>it'. edit_item b fam it = Some it' \<and> synced it'"
proof -
  define item8 where "item8 = set_tags b (set_claimedByCode b (set_string b ''url'' (set_notes b
    (set_string b ''details'' (set_string b ''itemName'' (set_string b ''recipientName''
    (set_string b ''recipientCode'' it)))))))"
  have "has item8 ''details''"
    unfolding item8_def has_get
    by (simp add: set_tags_other set_claimedByCode_other
        set_string_has [unfolded has_get] set_notes_has [unfolded has_get] d [unfolded has_get])
  then obtain v where dv: "get item8 ''details'' = Some v" by (auto simp: has_get)
  have "get (set_claimedByCode b (set_string b ''url'' (set_notes b
    (set_string b ''details'' (set_string b ''itemName'' (set_string b ''recipientName''
    (set_string b ''recipientCode'' it))))))) ''tags'' = Some (JArr xs)"
    by (simp add: edit_steps_other t)
  from set_tags_array [OF this] obtain ys where ty: "get item8 ''tags'' = Some (JArr ys)"
    by (auto simp: item8_def)
  let ?item9 = "sync_notes item8"
  have 9: "get ?item9 ''details'' = Some v" "get ?item9 ''notes'' = Some v" "get ?item9 ''tags'' = Some (JArr ys)"
    by (simp_all add: sync_notes_def get_put_val dv ty)
  let ?item10 = "put ''tag'' (JStr (js_join ''/'' ys)) ?item9"
  have e: "edit_item b fam it = Some (keep_family fam ?item10)"
    by (simp add: edit_item_def Let_def item8_def [symmetric] sync_tag_array [OF 9(3)])
  have "synced (keep_family fam ?item10)"
    by (rule syncedI [of _ v ys]) (simp_all add: keep_family_other get_put 9)
  with e show ?thesis by blast
qed

lemma csv_tags_array:
  "\<exists>xs. (case rawTags of
           Some (JStr t) \<Rightarrow> if trim t \<noteq> [] then split_tags ''/|,;'' t else JArr []
         | _ \<Rightarrow> JArr []) = JArr xs"
  by (auto simp: split_tags_def split: option.splits json.splits)

lemma tag_of_array:
  "js_or (js_and (Some (JArr xs)) (case JArr xs of JArr ys \<Rightarrow> Some (JStr (js_join ''/'' ys)) | _ \<Rightarrow> None)) empty_str
     = Some (JStr (js_join ''/'' xs))"
  by (simp add: js_or_def js_and_def empty_str_def)

lemma csv_item_synced: "synced (snd (csv_item fam m r))"
proof -
  obtain xs where t: "(case js_or (get r ''tags'') (js_or (get r ''tag'') empty_str) of
           Some (JStr t) \<Rightarrow> if trim t \<noteq> [] then split_tags ''/|,;'' t else JArr []
         | _ \<Rightarrow> JArr []) = JArr xs"
    using csv_tags_array by blast
  obtain v where d: "js_or (get r ''details'') (js_or (get r ''notes'') empty_str) = Some v"
    by (simp add: empty_str_def js_or_Some)
  show ?thesis
    by (rule syncedI [of _ v xs])
      (simp_all add: csv_item_def Let_def split_beta t d tag_of_array get_put get_put_val
        del: json.case)
qed

lemma csv_items_synced: "all_synced (csv_items fam m rs)"
  using csv_item_synced
  by (induction rs arbitrary: m) (auto simp: all_synced_def split_beta)

lemma step_synced:
  assumes s: "all_synced (disk_items d)"
  shows "all_synced (disk_items (snd (handle x d)))"
proof -
  obtain data d1 where load: "loadData d = (data, d1)" by (cases "loadData d")
  have sl: "all_synced (items data)"
    by (rule loaded_synced [OF load s])
  from handle_shape [OF load, of x]
  consider "disk_items (snd (handle x d)) = disk_items d"
    | "disk_items (snd (handle x d)) = items data"
    | k v where "k < length (items data)"
        "disk_items (snd (handle x d)) = (items data)[k := put_val ''claimedByCode'' v (items data ! k)]"
    | k b fam item where "k < length (items data)" "edit_item b fam (items data ! k) = Some item"
        "disk_items (snd (handle x d)) = (items data)[k := item]"
    | p where "disk_items (snd (handle x d)) = filter p (items data)"
    | req where "x = UploadCsv req"
        "disk_items (snd (handle x d))
           = items data @ csv_items (get (body req) ''family'') (maxId_of (items data)) (csv_records req)"
    unfolding step_shape_def by blast
  then show ?thesis
  proof cases
    case 1
    with s show ?thesis by simp
  next
    case 2
    with sl show ?thesis by simp
  next
    case 3
    from sl 3(1) have "synced (items data ! k)" by (simp add: all_synced_def)
    then have "synced (put_val ''claimedByCode'' v (items data ! k))" by (rule put_claimedByCode_synced)
    with sl show ?thesis
      unfolding 3(2) all_synced_def by (auto dest!: set_update_subset_insert [THEN subsetD])
  next
    case 4
    from sl 4(1) have "synced (items data ! k)" by (simp add: all_synced_def)
    then obtain v xs where "get (items data ! k) ''details'' = Some v" "get (items data ! k) ''tags'' = Some (JArr xs)"
      by (rule syncedE)
    then have "\<exists>it'. edit_item b fam (items data ! k) = Some it' \<and> synced it'"
      by (intro edit_item_synced) (simp_all add: has_get)
    with 4(2) have "synced item" by auto
    with sl show ?thesis
      unfolding 4(3) all_synced_def by (auto dest!: set_update_subset_insert [THEN subsetD])
  next
    case 5
    with sl show ?thesis by (simp add: all_synced_def)
  next
    case 6
    with sl csv_items_synced [of "get (body req) ''family''" "maxId_of (items data)" "csv_records req"]
    show ?thesis by (auto simp: all_synced_def)
  qed
qed

lemma run_synced: "all_synced (disk_items d) \<Longrightarrow> all_synced (disk_items (run ops d))"
  by (induction ops arbitrary: d) (simp_all add: step_synced)

lemma normalized_item_parts:
  "normalized_item it \<Longrightarrow> has it ''details'' \<and> (\<exists>xs. get it ''tags'' = Some (JArr xs))"
  by (simp add: normalized_item_def)

text \<open>
  C4, as the code has it.  The item that an admin item update edits is saved with
  \<^verbatim>\<open>notes\<close> equal to \<^verbatim>\<open>details\<close> and \<^verbatim>\<open>tag\<close> equal to its \<^verbatim>\<open>tags\<close> joined by \<^verbatim>\<open>/\<close>, and so is every item
  that a CSV import adds.  The other writes save the four fields of every item as
  loaded, and \<^verbatim>\<open>loadData\<close> never writes \<^verbatim>\<open>notes\<close> or \<^verbatim>\<open>tag\<close>: a file whose items all satisfy the
  two equations keeps satisfying them through every sequence of operations.
\<close>

theorem sync_after_writes:
  "(all_synced (disk_items d) \<longrightarrow> all_synced (disk_items (run ops d)))
   \<and> (\<forall>req item d'.
         update_item req d = (Response 200 (JObj [(''success'', JBool True), (''item'', JObj item)]), d')
         \<longrightarrow> synced item \<and> item \<in> set (disk_items d'))
   \<and> (\<forall>req data d1. loadData d = (data, d1) \<longrightarrow> csv_records req \<noteq> [] \<longrightarrow>
         (\<exists>added. disk_items (snd (upload_csv_text req d)) = items data @ added
                 \<and> length added = length (csv_records req) \<and> all_synced added))"
proof -
  have inv: "all_synced (disk_items d) \<longrightarrow> all_synced (disk_items (run ops d))"
    by (simp add: run_synced)
  have upd: "synced item \<and> item \<in> set (disk_items d')"
    if r: "update_item req d = (Response 200 (JObj [(''success'', JBool True), (''item'', JObj item)]), d')"
    for req item d'
  proof -
    obtain data d1 where load: "loadData d = (data, d1)" by (cases "loadData d")
    from r obtain k where k: "k < length (items data)"
      and e: "edit_item (body req)
                (js_or (qparam req ''family'') (js_or (get (body req) ''family'') default_family))
                (items data ! k) = Some item"
      and d': "d' = Some (data\<lparr>items := (items data)[k := item]\<rparr>)"
      by (auto simp: update_item_def load Let_def saveData_def failure_def
          dest: findIndex_less split: if_splits option.splits)
    from loadData_normalized [OF load] k have "normalized_item (items data ! k)"
      by (simp add: normalized_def)
    then obtain xs where "has (items data ! k) ''details''" "get (items data ! k) ''tags'' = Some (JArr xs)"
      by (auto dest: normalized_item_parts)
    from edit_item_synced [OF this, of "body req"
        "js_or (qparam req ''family'') (js_or (get (body req) ''family'') default_family)"] e
    have "synced item" by auto
    moreover from k d' have "item \<in> set (disk_items d')"
      by (simp add: disk_items_Some set_update_memI)
    ultimately show ?thesis by simp
  qed
  have csv: "\<exists>added. disk_items (snd (upload_csv_text req d)) = items data @ added
                 \<and> length added = length (csv_records req) \<and> all_synced added"
    if load: "loadData d = (data, d1)" and rs: "csv_records req \<noteq> []" for req data d1
    by (rule exI [of _ "csv_items (get (body req) ''family'') (maxId_of (items data)) (csv_records req)"])
      (simp add: upload_saves [OF load rs] disk_items_Some csv_items_length csv_items_synced)
  from inv upd csv show ?thesis by blast
qed

text \<open>
  C4 on a store whose item is in sync (a claim and an import keep it so), and on a store
  whose item is not: an admin update brings the edited item into sync, and an import adds
  two items that are in sync.
\<close>

theorem sync_after_writes_witness:
  "all_synced (disk_items (run [Claim (claim_req (JStr ''ANNA'') 1), UploadCsv kite_ball] (Some tidy)))
   \<and> synced [(''id'', JNum 1), (''details'', JStr ''red one''), (''notes'', JStr ''red one''),
              (''tags'', JArr [JStr ''x'', JStr ''y'']), (''tag'', JStr ''x/y''),
              (''claimedByCode'', JNull), (''family'', JStr ''default'')]
   \<and> (\<exists>added. disk_items (snd (upload_csv_text kite_ball (Some stale))) = items stale @ added
               \<and> length added = 2 \<and> all_synced added)"
proof -
  have t: "all_synced (disk_items (Some tidy))"
    by code_simp
  have e: "update_item edit_req (Some stale)
         = (Response 200 (JObj [(''success'', JBool True),
              (''item'', JObj [(''id'', JNum 1), (''details'', JStr ''red one''), (''notes'', JStr ''red one''),
                               (''tags'', JArr [JStr ''x'', JStr ''y'']), (''tag'', JStr ''x/y''),
                               (''claimedByCode'', JNull), (''family'', JStr ''default'')])]),
            Some \<lparr>people = [],
                  items = [[(''id'', JNum 1), (''details'', JStr ''red one''), (''notes'', JStr ''red one''),
                            (''tags'', JArr [JStr ''x'', JStr ''y'']), (''tag'', JStr ''x/y''),
                            (''claimedByCode'', JNull), (''family'', JStr ''default'')]]\<rparr>)"
    by code_simp
  have l: "loadData (Some stale) = (stale, Some stale)"
    by code_simp
  have rs: "csv_records kite_ball \<noteq> []" "length (csv_records kite_ball) = 2"
    by code_simp+
  from sync_after_writes [of "Some tidy" "[Claim (claim_req (JStr ''ANNA'') 1), UploadCsv kite_ball]"] t
  have 1: "all_synced (disk_items (run [Claim (claim_req (JStr ''ANNA'') 1), UploadCsv kite_ball] (Some tidy)))"
    by blast
  from sync_after_writes [of "Some stale" "[]"] e
  have 2: "synced [(''id'', JNum 1), (''details'', JStr ''red one''), (''notes'', JStr ''red one''),
              (''tags'', JArr [JStr ''x'', JStr ''y'']), (''tag'', JStr ''x/y''),
              (''claimedByCode'', JNull), (''family'', JStr ''default'')]"
    by blast
  from sync_after_writes [of "Some stale" "[]"] l rs(1)
  have "\<exists>added. disk_items (snd (upload_csv_text kite_ball (Some stale))) = items stale @ added
               \<and> length added = length (csv_records kite_ball) \<and> all_synced added"
    by blast
  with rs(2) have 3: "\<exists>added. disk_items (snd (upload_csv_text kite_ball (Some stale))) = items stale @ added
               \<and> length added = 2 \<and> all_synced added"
    by simp
  from 1 2 3 show ?thesis by simp
qed

text \<open>
  C4 as stated fails: a claim saves an item whose \<^verbatim>\<open>notes\<close> and \<^verbatim>\<open>tag\<close> disagree with its
  \<^verbatim>\<open>details\<close> and \<^verbatim>\<open>tags\<close> just as it was loaded.
\<close>

theorem claim_stale_notes_counterexample:
  "claim \<lparr>params = [], query = [], body = [(''viewerCode'', JStr ''ANNA''), (''itemId'', JNum 1)]\<rparr>
     (Some \<lparr>people = [],
            items = [[(''id'', JNum 1), (''details'', JStr ''new''), (''notes'', JStr ''old''),
                      (''tags'', JArr [JStr ''a'']), (''tag'', JStr ''a/b''),
                      (''claimedByCode'', JNull), (''family'', JStr ''default'')]]\<rparr>)
   = (success,
      Some \<lparr>people = [],
            items = [[(''id'', JNum 1), (''details'', JStr ''new''), (''notes'', JStr ''old''),
                      (''tags'', JArr [JStr ''a'']), (''tag'', JStr ''a/b''),
                      (''claimedByCode'', JStr ''ANNA''), (''family'', JStr ''default'')]]\<rparr>)
   \<and> get [(''id'', JNum 1), (''details'', JStr ''new''), (''notes'', JStr ''old''),
           (''tags'', JArr [JStr ''a'']), (''tag'', JStr ''a/b''),
           (''claimedByCode'', JStr ''ANNA''), (''family'', JStr ''default'')] ''notes''
       \<noteq> get [(''id'', JNum 1), (''details'', JStr ''new''), (''notes'', JStr ''old''),
               (''tags'', JArr [JStr ''a'']), (''tag'', JStr ''a/b''),
               (''claimedByCode'', JStr ''ANNA''), (''family'', JStr ''default'')] ''details''
   \<and> get [(''id'', JNum 1), (''details'', JStr ''new''), (''notes'', JStr ''old''),
           (''tags'', JArr [JStr ''a'']), (''tag'', JStr ''a/b''),
           (''claimedByCode'', JStr ''ANNA''), (''family'', JStr ''default'')] ''tag''
       \<noteq> Some (JStr (js_join ''/'' [JStr ''a'']))"
  by code_simp

end
